theory Spec2Isabelle
  imports Complex_Main "HOL-Library.Multiset"
begin

section \<open>Python values the formatter relies on\<close>

text \<open>
  The exceptions that \<^verbatim>\<open>input_formatter.py\<close> can raise: an index out of range, a missing
  dictionary key, a sample that is negative or larger than its population, the
  conversion of an infinite float to an integer, and the
  \<^verbatim>\<open>RuntimeError('unknown mode!')\<close> of line 208. \<open>TokenizerError\<close> stands for whatever the
  tokenizer collaborator raises.
\<close>

datatype error =
  IndexError | KeyError | ValueError | OverflowError | RuntimeError | TokenizerError

subsection \<open>The random source\<close>

text \<open>
  The module-level functions \<^verbatim>\<open>random\<close>, \<^verbatim>\<open>choice\<close>, \<^verbatim>\<open>shuffle\<close> and \<^verbatim>\<open>sample\<close> of Python's
  \<^verbatim>\<open>random\<close> module read a hidden generator. Here the generator is an explicit infinite
  tape of natural numbers that every call reads from the front and returns shortened.
\<close>

type_synonym rng = "nat \<Rightarrow> nat"

definition rand_next :: "rng \<Rightarrow> nat \<times> rng" where
  "rand_next g = (g 0, \<lambda>n. g (Suc n))"

definition randbelow :: "nat \<Rightarrow> rng \<Rightarrow> nat \<times> rng" where
  "randbelow n g = (case rand_next g of (r, g') \<Rightarrow> (r mod n, g'))"

text \<open>\<^verbatim>\<open>random()\<close>: a multiple of \<open>2\<^sup>-\<^sup>5\<^sup>3\<close> in \<open>[0, 1)\<close>, kept as a rational.\<close>

definition random_unit :: "rng \<Rightarrow> rat \<times> rng" where
  "random_unit g = (case rand_next g of (r, g') \<Rightarrow> (of_nat (r mod 2 ^ 53) / 2 ^ 53, g'))"

text \<open>\<^verbatim>\<open>choice(seq)\<close> raises \<^verbatim>\<open>IndexError\<close> on an empty sequence.\<close>

definition choice :: "'a list \<Rightarrow> rng \<Rightarrow> error + ('a \<times> rng)" where
  "choice xs g =
     (if xs = [] then Inl IndexError
      else case randbelow (length xs) g of (j, g') \<Rightarrow> Inr (xs ! j, g'))"

text \<open>
  \<^verbatim>\<open>shuffle(x)\<close>: \<^verbatim>\<open>for i in reversed(range(1, len(x))): j = randbelow(i + 1); x[i], x[j] = x[j], x[i]\<close>.
\<close>

fun shuffle_loop :: "nat \<Rightarrow> 'a list \<Rightarrow> rng \<Rightarrow> 'a list \<times> rng" where
  "shuffle_loop 0 xs g = (xs, g)"
| "shuffle_loop (Suc i) xs g =
     (case randbelow (Suc (Suc i)) g of
        (j, g') \<Rightarrow> shuffle_loop i (xs[Suc i := xs ! j, j := xs ! Suc i]) g')"

definition shuffle :: "'a list \<Rightarrow> rng \<Rightarrow> 'a list \<times> rng" where
  "shuffle xs g = shuffle_loop (length xs - 1) xs g"

text \<open>
  \<^verbatim>\<open>sample(population, k)\<close> raises \<^verbatim>\<open>ValueError\<close> unless \<^verbatim>\<open>0 <= k <= len(population)\<close>.
  Otherwise it copies the population into a pool and \<open>k\<close> times takes \<^verbatim>\<open>pool[j]\<close> for a
  random \<open>j\<close> below the number of live entries, moving the last live entry into slot \<open>j\<close>.
  The pool below holds the live entries only. (For a large population the library draws
  positions into a set instead; either way the result is \<open>k\<close> entries at distinct
  positions, which is all that is used of it.)
\<close>

fun sample_loop :: "nat \<Rightarrow> 'a list \<Rightarrow> rng \<Rightarrow> 'a list \<times> rng" where
  "sample_loop 0 pool g = ([], g)"
| "sample_loop (Suc k) pool g =
     (case randbelow (length pool) g of
        (j, g') \<Rightarrow>
          (case sample_loop k (butlast (pool[j := last pool])) g' of
             (ys, g'') \<Rightarrow> (pool ! j # ys, g'')))"

definition sample :: "'a list \<Rightarrow> int \<Rightarrow> rng \<Rightarrow> error + ('a list \<times> rng)" where
  "sample population k g =
     (if 0 \<le> k \<and> k \<le> int (length population)
      then Inr (sample_loop (nat k) population g)
      else Inl ValueError)"

subsection \<open>Slices, truncation and dictionaries\<close>

text \<open>\<^verbatim>\<open>xs[:n]\<close>: a negative \<open>n\<close> counts from the end.\<close>

definition slice_to :: "'a list \<Rightarrow> int \<Rightarrow> 'a list" where
  "slice_to xs n = (if 0 \<le> n then take (nat n) xs else take (length xs - nat (- n)) xs)"

text \<open>\<^verbatim>\<open>int(x)\<close> on a number truncates towards zero.\<close>

definition py_int :: "rat \<Rightarrow> int" where
  "py_int x = (if 0 \<le> x then \<lfloor>x\<rfloor> else \<lceil>x\<rceil>)"

subsection \<open>Floats\<close>

text \<open>
  A finite Python float is an IEEE 754 binary64 number: an integer mantissa below
  \<open>2\<^sup>5\<^sup>3\<close> in absolute value times a power of two, \<open>Double m e\<close> standing for
  \<open>m * 2\<^sup>e\<close>. The float 0.5 is \<open>Double 1 (-1)\<close>, and 0.15 is
  \<open>Double 5404319552844595 (-55)\<close>.
\<close>

datatype double = Double int int

fun double_value :: "double \<Rightarrow> rat" where
  "double_value (Double m e) =
     (if 0 \<le> e then of_int m * 2 ^ nat e else of_int m / 2 ^ nat (- e))"

text \<open>
  Rounding \<open>m * 2\<^sup>e\<close> to a float: the mantissa loses the bits it has beyond 53, and as
  many more as bring the exponent up to \<open>-1074\<close>, the exponent of the subnormal numbers; the
  bits are rounded off to the nearest, a tie to the even mantissa. A result of \<open>2\<^sup>1\<^sup>0\<^sup>2\<^sup>4\<close>
  or more is infinite. The only uses of a product in this file apply \<^verbatim>\<open>int\<close> or \<^verbatim>\<open>ceil\<close>
  to it at once, and both raise \<^verbatim>\<open>OverflowError\<close> on an infinite float (as does the
  conversion of an integer too large for a float), so the infinite result is that error.
\<close>

function bits_over_53 :: "nat \<Rightarrow> nat" where
  "bits_over_53 m = (if m < 2 ^ 53 then 0 else Suc (bits_over_53 (m div 2)))"
  by pat_completeness auto
termination
  by (relation "measure id") auto

declare bits_over_53.simps [simp del]

definition round_half_even :: "nat \<Rightarrow> nat \<Rightarrow> nat" where
  "round_half_even m s =
     (let q = m div 2 ^ s; r = m mod 2 ^ s
      in if 2 * r < 2 ^ s then q
         else if 2 ^ s < 2 * r then q + 1
         else if even q then q else q + 1)"

definition round_double :: "int \<Rightarrow> int \<Rightarrow> error + double" where
  "round_double m e =
     (let s = nat (max (int (bits_over_53 (nat \<bar>m\<bar>))) (- 1074 - e));
          m' = int (round_half_even (nat \<bar>m\<bar>) s);
          e' = e + int s
      in if 2 ^ 1024 \<le> double_value (Double m' e') then Inl OverflowError
         else Inr (Double (sgn m * m') e'))"

text \<open>\<^verbatim>\<open>float(n)\<close> for an integer, the product of two floats, and \<^verbatim>\<open>n * p\<close> for an
  integer \<open>n\<close> and a float \<open>p\<close>, which converts \<open>n\<close> first.\<close>

definition float_of_nat :: "nat \<Rightarrow> error + double" where
  "float_of_nat n = round_double (int n) 0"

fun float_mul :: "double \<Rightarrow> double \<Rightarrow> error + double" where
  "float_mul (Double m1 e1) (Double m2 e2) = round_double (m1 * m2) (e1 + e2)"

definition nat_times_float :: "nat \<Rightarrow> double \<Rightarrow> error + double" where
  "nat_times_float n p =
     (case float_of_nat n of Inl e \<Rightarrow> Inl e | Inr x \<Rightarrow> float_mul x p)"

text \<open>
  A \<^verbatim>\<open>dict\<close> keeps its keys in insertion order; assigning to a key that is present
  replaces the value where the key already stands.
\<close>

fun dict_set :: "('k \<times> 'v) list \<Rightarrow> 'k \<Rightarrow> 'v \<Rightarrow> ('k \<times> 'v) list" where
  "dict_set [] k v = [(k, v)]"
| "dict_set ((k', v') # kvs) k v =
     (if k' = k then (k, v) # kvs else (k', v') # dict_set kvs k v)"

section \<open>Data model\<close>

text \<open>\<^verbatim>\<open>table_bert.table.Column\<close>, the fields the formatter reads.\<close>

record column =
  col_name :: string
  col_type :: string
  name_tokens :: "string list"
  sample_value_tokens :: "string list"

text \<open>
  \<^verbatim>\<open>TableBertConfig\<close>, the fields the formatter reads. The two probabilities are finite
  Python floats.
\<close>

record config =
  cell_input_template :: "string list"
  context_first :: bool
  max_cell_len :: int
  column_delimiter :: string
  table_mask_strategy :: string
  masked_column_prob :: double
  masked_context_prob :: double
  max_predictions_per_seq :: int

text \<open>
  The formatter object: its configuration, the vocabulary list of its tokenizer, the
  tokenizer's \<^verbatim>\<open>convert_tokens_to_ids\<close>, and the constant \<^verbatim>\<open>MAX_BERT_INPUT_LENGTH\<close> that the
  module imports from \<^verbatim>\<open>table_bert.table_bert\<close>. The last two are defined outside this
  file and are parameters.
\<close>

record formatter =
  cfg :: config
  vocab_list :: "string list"
  convert_tokens_to_ids :: "string list \<Rightarrow> error + nat list"
  MAX_BERT_INPUT_LENGTH :: int

text \<open>
  The dictionary \<^verbatim>\<open>span_map\<close> of \<^verbatim>\<open>get_cell_input\<close>: a key that may be absent is an
  option. Spans are half-open pairs of absolute token positions.
\<close>

record span_map =
  sp_first_token :: "nat \<times> nat"
  sp_column_name :: "(nat \<times> nat) option"
  sp_value :: "(nat \<times> nat) option"
  sp_type :: "(nat \<times> nat) option"
  sp_other_tokens :: "nat list option"
  sp_whole_span :: "(nat \<times> nat) option"

text \<open>The dictionary that \<^verbatim>\<open>get_input\<close> returns.\<close>

record input_instance =
  in_tokens :: "string list"
  in_segment_ids :: "nat list"
  in_column_spans :: "(string \<times> span_map) list"
  in_context_length :: nat
  in_context_token_indices :: "nat list"

section \<open>Sequence assembly\<close>

text \<open>Lines 34--50: the loop over the cell template, on the pair \<^verbatim>\<open>(input, span_map)\<close>.\<close>

fun cell_loop ::
  "column \<Rightarrow> string list \<Rightarrow> nat \<Rightarrow> string list \<Rightarrow> string list \<Rightarrow> span_map
     \<Rightarrow> string list \<times> span_map" where
  "cell_loop column cell_value token_offset [] inp sm = (inp, sm)"
| "cell_loop column cell_value token_offset (token # rest) inp sm =
     (let start_token_abs_position = length inp + token_offset in
      if token = ''column'' then
        cell_loop column cell_value token_offset rest (inp @ name_tokens column)
          (sm\<lparr>sp_column_name :=
             Some (start_token_abs_position,
                   start_token_abs_position + length (name_tokens column))\<rparr>)
      else if token = ''value'' then
        cell_loop column cell_value token_offset rest (inp @ cell_value)
          (sm\<lparr>sp_value :=
             Some (start_token_abs_position, start_token_abs_position + length cell_value)\<rparr>)
      else if token = ''type'' then
        cell_loop column cell_value token_offset rest (inp @ [col_type column])
          (sm\<lparr>sp_type := Some (start_token_abs_position, start_token_abs_position + 1)\<rparr>)
      else
        cell_loop column cell_value token_offset rest (inp @ [token])
          (sm\<lparr>sp_other_tokens :=
             Some ((case sp_other_tokens sm of None \<Rightarrow> [] | Some os \<Rightarrow> os)
                   @ [start_token_abs_position])\<rparr>))"

definition get_cell_input ::
  "config \<Rightarrow> column \<Rightarrow> string list \<Rightarrow> nat \<Rightarrow> string list \<times> span_map" where
  "get_cell_input c column cell_value token_offset =
     (case cell_loop column cell_value token_offset (cell_input_template c) []
             \<lparr>sp_first_token = (token_offset, token_offset + 1),
              sp_column_name = None, sp_value = None, sp_type = None,
              sp_other_tokens = None, sp_whole_span = None\<rparr> of
        (inp, sm) \<Rightarrow>
          (inp, sm\<lparr>sp_whole_span := Some (token_offset, token_offset + length inp)\<rparr>))"

text \<open>
  Lines 71--87: the loop over the header, on \<^verbatim>\<open>row_input_tokens\<close>,
  \<^verbatim>\<open>column_token_span_maps\<close> and \<^verbatim>\<open>column_start_idx\<close>; \<^verbatim>\<open>break\<close> returns the state as it is.
\<close>

fun header_loop ::
  "formatter \<Rightarrow> int \<Rightarrow> column list \<Rightarrow> string list \<Rightarrow> (string \<times> span_map) list \<Rightarrow> nat
     \<Rightarrow> string list \<times> (string \<times> span_map) list" where
  "header_loop f max_table_token_length [] row_input_tokens column_token_span_maps
       column_start_idx = (row_input_tokens, column_token_span_maps)"
| "header_loop f max_table_token_length (column # rest) row_input_tokens
       column_token_span_maps column_start_idx =
     (let value_tokens = sample_value_tokens column;
          truncated_value_tokens = slice_to value_tokens (max_cell_len (cfg f));
          cell = get_cell_input (cfg f) column truncated_value_tokens column_start_idx;
          column_input_tokens = fst cell @ [column_delimiter (cfg f)];
          token_span_map = snd cell
      in if int (length row_input_tokens) + int (length column_input_tokens)
              > max_table_token_length
         then (row_input_tokens, column_token_span_maps)
         else header_loop f max_table_token_length rest
                (row_input_tokens @ column_input_tokens)
                (dict_set column_token_span_maps (col_name column) token_span_map)
                (column_start_idx + length column_input_tokens))"

text \<open>
  \<^verbatim>\<open>get_input\<close>, lines 56--109. The table is its header. Line 89 reads
  \<^verbatim>\<open>row_input_tokens[-1]\<close>, which raises \<^verbatim>\<open>IndexError\<close> on an empty list.
\<close>

definition get_input :: "formatter \<Rightarrow> string list \<Rightarrow> column list \<Rightarrow> error + input_instance" where
  "get_input f context header =
     (let table_tokens_start_idx = (if context_first (cfg f) then length context + 2 else 1);
          max_table_token_length = MAX_BERT_INPUT_LENGTH f - int (length context) - 2 - 1;
          looped = header_loop f max_table_token_length header [] [] table_tokens_start_idx;
          row_input_tokens = fst looped;
          column_token_span_maps = snd looped
      in if row_input_tokens = [] then Inl IndexError
         else
           let row_input_tokens =
                 (if last row_input_tokens = column_delimiter (cfg f)
                  then butlast row_input_tokens else row_input_tokens)
           in if context_first (cfg f) then
                Inr \<lparr>in_tokens = [''[CLS]''] @ context @ [''[SEP]''] @ row_input_tokens @ [''[SEP]''],
                     in_segment_ids = replicate (length context + 2) 0
                                   @ replicate (length row_input_tokens + 1) 1,
                     in_column_spans = column_token_span_maps,
                     in_context_length = 1 + length context,
                     in_context_token_indices = [0 ..< 1 + length context]\<rparr>
              else
                Inr \<lparr>in_tokens = [''[CLS]''] @ row_input_tokens @ [''[SEP]''] @ context @ [''[SEP]''],
                     in_segment_ids = replicate (length row_input_tokens + 2) 0
                                   @ replicate (length context + 1) 1,
                     in_column_spans = column_token_span_maps,
                     in_context_length = 1 + length context,
                     in_context_token_indices =
                       [length row_input_tokens + 1
                          ..< length row_input_tokens + 1 + 1 + length context + 1]\<rparr>)"

section \<open>Masked-language-model instances\<close>

text \<open>The dictionary \<^verbatim>\<open>info\<close>; a key that only some paths set is an option.\<close>

record mask_info =
  info_num_maskable_column_tokens :: nat
  info_num_masked_columns :: "int option"
  info_num_column_tokens_to_mask :: int
  info_num_context_tokens_to_mask :: int
  info_num_columns :: "nat option"

text \<open>
  Lines 192--208: the choice of column positions. The result is
  \<^verbatim>\<open>num_column_tokens_to_mask\<close>, \<^verbatim>\<open>masked_column_token_indices\<close>, the value stored under
  \<^verbatim>\<open>info['num_masked_columns']\<close> if any, and the random source. In the \<^verbatim>\<open>'column'\<close>
  branch \<^verbatim>\<open>columns_to_mask\<close> is drawn from \<^verbatim>\<open>range(num_maskable_columns)\<close>, so every
  \<^verbatim>\<open>column_indices[i]\<close> is in range.
\<close>

definition mask_columns ::
  "formatter \<Rightarrow> nat list list \<Rightarrow> rng \<Rightarrow> error + (int \<times> nat list \<times> int option \<times> rng)" where
  "mask_columns f column_indices g =
     (if table_mask_strategy (cfg f) = ''column_token'' then
        (let column_indices = concat column_indices
         in case nat_times_float (length column_indices) (masked_column_prob (cfg f)) of
              Inl e \<Rightarrow> Inl e
            | Inr x \<Rightarrow>
                (let num_column_tokens_to_mask =
                       min (max_predictions_per_seq (cfg f)) (max 2 (py_int (double_value x)))
                 in case shuffle column_indices g of
                      (column_indices, g1) \<Rightarrow>
                        (case sample column_indices num_column_tokens_to_mask g1 of
                           Inl e \<Rightarrow> Inl e
                         | Inr (s, g2) \<Rightarrow> Inr (num_column_tokens_to_mask, sort s, None, g2))))
      else if table_mask_strategy (cfg f) = ''column'' then
        (let num_maskable_columns = length column_indices
         in case nat_times_float num_maskable_columns (masked_column_prob (cfg f)) of
              Inl e \<Rightarrow> Inl e
            | Inr x \<Rightarrow>
                (let num_column_to_mask = max 1 \<lceil>double_value x\<rceil>
                 in case sample [0 ..< num_maskable_columns] num_column_to_mask g of
                      Inl e \<Rightarrow> Inl e
                    | Inr (s, g1) \<Rightarrow>
                        (case shuffle (sort s) g1 of
                           (columns_to_mask, g2) \<Rightarrow>
                             Inr (int (sum_list
                                        (map (\<lambda>i. length (column_indices ! i)) columns_to_mask)),
                                  concat (map (\<lambda>col. column_indices ! col) columns_to_mask),
                                  Some num_column_to_mask, g2))))
      else Inl RuntimeError)"

text \<open>
  Lines 210--223: the choice of context positions, merged with the column positions.
  The result is \<^verbatim>\<open>num_context_tokens_to_mask\<close>, \<^verbatim>\<open>masked_indices\<close> and the random source.
\<close>

definition mask_context ::
  "formatter \<Rightarrow> nat list \<Rightarrow> int \<Rightarrow> nat list \<Rightarrow> rng \<Rightarrow> error + (int \<times> nat list \<times> rng)" where
  "mask_context f context_indices num_column_tokens_to_mask masked_column_token_indices g =
     (let max_context_token_to_mask = max_predictions_per_seq (cfg f) - num_column_tokens_to_mask
      in case nat_times_float (length context_indices) (masked_context_prob (cfg f)) of
           Inl e \<Rightarrow> Inl e
         | Inr y \<Rightarrow>
             (let num_context_tokens_to_mask =
                    min max_context_token_to_mask (max 1 (py_int (double_value y)))
              in if num_context_tokens_to_mask > 0 then
                   (case shuffle context_indices g of
                      (context_indices, g1) \<Rightarrow>
                        (case sample context_indices num_context_tokens_to_mask g1 of
                           Inl e \<Rightarrow> Inl e
                         | Inr (s, g2) \<Rightarrow>
                             Inr (num_context_tokens_to_mask,
                                  sort (sort s @ masked_column_token_indices), g2)))
                 else Inr (num_context_tokens_to_mask, masked_column_token_indices, g)))"

text \<open>
  Lines 227--240: the substitution loop, on \<^verbatim>\<open>tokens\<close> (overwritten in place) and
  \<^verbatim>\<open>masked_token_labels\<close>. \<^verbatim>\<open>tokens[index]\<close> raises \<^verbatim>\<open>IndexError\<close> out of range.
  Positions are natural numbers, as \<^verbatim>\<open>range\<close> produces them in lines 95--99 and 147--148.
\<close>

fun mask_loop ::
  "string list \<Rightarrow> nat list \<Rightarrow> string list \<Rightarrow> string list \<Rightarrow> rng
     \<Rightarrow> error + (string list \<times> string list \<times> rng)" where
  "mask_loop vocab [] tokens masked_token_labels g = Inr (tokens, masked_token_labels, g)"
| "mask_loop vocab (index # rest) tokens masked_token_labels g =
     (case random_unit g of
        (r1, g1) \<Rightarrow>
          (case (if r1 < 8 / 10 then Inr (''[MASK]'', g1)
                 else case random_unit g1 of
                        (r2, g2) \<Rightarrow>
                          if r2 < 5 / 10 then
                            (if index < length tokens then Inr (tokens ! index, g2)
                             else Inl IndexError)
                          else choice vocab g2) of
             Inl e \<Rightarrow> Inl e
           | Inr (masked_token, g3) \<Rightarrow>
               if index < length tokens then
                 mask_loop vocab rest (tokens[index := masked_token])
                   (masked_token_labels @ [tokens ! index]) g3
               else Inl IndexError))"

text \<open>\<^verbatim>\<open>create_masked_lm_predictions\<close>, lines 183--247.\<close>

definition create_masked_lm_predictions ::
  "formatter \<Rightarrow> string list \<Rightarrow> nat list \<Rightarrow> nat list list \<Rightarrow> rng
     \<Rightarrow> error + ((string list \<times> nat list \<times> string list \<times> mask_info) \<times> rng)" where
  "create_masked_lm_predictions f tokens context_indices column_indices g =
     (case mask_columns f column_indices g of
        Inl e \<Rightarrow> Inl e
      | Inr (num_column_tokens_to_mask, masked_column_token_indices, masked_columns, g1) \<Rightarrow>
          (case mask_context f context_indices num_column_tokens_to_mask
                  masked_column_token_indices g1 of
             Inl e \<Rightarrow> Inl e
           | Inr (num_context_tokens_to_mask, masked_indices, g2) \<Rightarrow>
               (case mask_loop (vocab_list f) masked_indices tokens [] g2 of
                  Inl e \<Rightarrow> Inl e
                | Inr (tokens, masked_token_labels, g3) \<Rightarrow>
                    Inr ((tokens, masked_indices, masked_token_labels,
                          \<lparr>info_num_maskable_column_tokens = sum_list (map length column_indices),
                           info_num_masked_columns = masked_columns,
                           info_num_column_tokens_to_mask = num_column_tokens_to_mask,
                           info_num_context_tokens_to_mask = num_context_tokens_to_mask,
                           info_num_columns = None\<rparr>), g3))))"

text \<open>
  Lines 145--157: one candidate list per entry of \<^verbatim>\<open>column_spans\<close>, in the dictionary's
  order. Each of the three subscripts raises \<^verbatim>\<open>KeyError\<close> on a missing key; the third is
  evaluated only when the draw is below 0.01.
\<close>

fun column_candidate_indices ::
  "(string \<times> span_map) list \<Rightarrow> rng \<Rightarrow> error + (nat list list \<times> rng)" where
  "column_candidate_indices [] g = Inr ([], g)"
| "column_candidate_indices ((name, span') # rest) g =
     (case sp_column_name span' of
        None \<Rightarrow> Inl KeyError
      | Some (a, b) \<Rightarrow>
          (case sp_type span' of
             None \<Rightarrow> Inl KeyError
           | Some (c, d) \<Rightarrow>
               (case random_unit g of
                  (r, g1) \<Rightarrow>
                    (case (if r < 1 / 100
                           then (case sp_other_tokens span' of
                                   None \<Rightarrow> Inl KeyError | Some os \<Rightarrow> Inr os)
                           else Inr []) of
                       Inl e \<Rightarrow> Inl e
                     | Inr os \<Rightarrow>
                         (case column_candidate_indices rest g1 of
                            Inl e \<Rightarrow> Inl e
                          | Inr (ls, g2) \<Rightarrow> Inr (([a ..< b] @ [c ..< d] @ os) # ls, g2))))))"

text \<open>Lines 159--163: \<^verbatim>\<open>[1:]\<close> drops the first index, \<^verbatim>\<open>[:-1]\<close> the last.\<close>

definition context_candidate_indices :: "formatter \<Rightarrow> input_instance \<Rightarrow> nat list" where
  "context_candidate_indices f input_instance =
     (if context_first (cfg f) then drop 1 (in_context_token_indices input_instance)
      else butlast (in_context_token_indices input_instance))"

text \<open>The dictionary that \<^verbatim>\<open>create_pretraining_instance\<close> returns.\<close>

record pretraining_instance =
  inst_tokens :: "string list"
  token_ids :: "nat list"
  segment_a_length :: nat
  masked_lm_positions :: "nat list"
  masked_lm_labels :: "string list"
  masked_lm_label_ids :: "nat list"
  inst_info :: mask_info

text \<open>\<^verbatim>\<open>create_pretraining_instance\<close>, lines 140--181.\<close>

definition create_pretraining_instance ::
  "formatter \<Rightarrow> string list \<Rightarrow> column list \<Rightarrow> rng \<Rightarrow> error + (pretraining_instance \<times> rng)" where
  "create_pretraining_instance f context header g =
     (case get_input f context header of
        Inl e \<Rightarrow> Inl e
      | Inr input_instance \<Rightarrow>
          (case column_candidate_indices (in_column_spans input_instance) g of
             Inl e \<Rightarrow> Inl e
           | Inr (column_candidates, g1) \<Rightarrow>
               (case create_masked_lm_predictions f (in_tokens input_instance)
                       (context_candidate_indices f input_instance) column_candidates g1 of
                  Inl e \<Rightarrow> Inl e
                | Inr ((masked_sequence, positions, labels, info), g2) \<Rightarrow>
                    (case convert_tokens_to_ids f masked_sequence of
                       Inl e \<Rightarrow> Inl e
                     | Inr ids \<Rightarrow>
                         (case convert_tokens_to_ids f labels of
                            Inl e \<Rightarrow> Inl e
                          | Inr label_ids \<Rightarrow>
                              Inr (\<lparr>inst_tokens = masked_sequence,
                                    token_ids = ids,
                                    segment_a_length =
                                      length (filter (\<lambda>x. x = 0) (in_segment_ids input_instance)),
                                    masked_lm_positions = positions,
                                    masked_lm_labels = labels,
                                    masked_lm_label_ids = label_ids,
                                    inst_info = info\<lparr>info_num_columns := Some (length header)\<rparr>\<rparr>,
                                   g2))))))"

section \<open>Example inputs\<close>

text \<open>
  The example of the specification: the question ``how many medals'' over a table with a
  text column \<open>country\<close> (and, where two columns are needed, a numeric column \<open>year\<close>).
  The tokenizer's \<^verbatim>\<open>convert_tokens_to_ids\<close> is replaced by a stand-in that never fails.
  The column probability is the float 0.5 and the context probability the float 0.15.
\<close>

definition medal_config :: config where
  "medal_config =
     \<lparr>cell_input_template = [''column'', ''type'', ''value''],
      context_first = True,
      max_cell_len = 5,
      column_delimiter = ''[SEP]'',
      table_mask_strategy = ''column'',
      masked_column_prob = Double 1 (- 1),
      masked_context_prob = Double 5404319552844595 (- 55),
      max_predictions_per_seq = 200\<rparr>"

definition medal_formatter :: formatter where
  "medal_formatter =
     \<lparr>cfg = medal_config,
      vocab_list = [''[MASK]'', ''how'', ''many'', ''medals''],
      convert_tokens_to_ids = (\<lambda>ts. Inr (map length ts)),
      MAX_BERT_INPUT_LENGTH = 512\<rparr>"

definition country :: column where
  "country =
     \<lparr>col_name = ''country'', col_type = ''text'',
      name_tokens = [''country''], sample_value_tokens = [''brazil'']\<rparr>"

definition year :: column where
  "year =
     \<lparr>col_name = ''year'', col_type = ''real'',
      name_tokens = [''year''], sample_value_tokens = [''2016'']\<rparr>"

definition medal_context :: "string list" where
  "medal_context = [''how'', ''many'', ''medals'']"

text \<open>What \<^verbatim>\<open>get_input\<close> returns for the question and the one-column table.\<close>

definition medal_instance :: input_instance where
  "medal_instance =
     \<lparr>in_tokens = [''[CLS]'', ''how'', ''many'', ''medals'', ''[SEP]'',
                   ''country'', ''text'', ''brazil'', ''[SEP]''],
      in_segment_ids = [0, 0, 0, 0, 0, 1, 1, 1, 1],
      in_column_spans =
        [(''country'',
          \<lparr>sp_first_token = (5, 6), sp_column_name = Some (5, 6), sp_value = Some (7, 8),
           sp_type = Some (6, 7), sp_other_tokens = None, sp_whole_span = Some (5, 8)\<rparr>)],
      in_context_length = 4,
      in_context_token_indices = [0, 1, 2, 3]\<rparr>"

text \<open>The same formatter with the table placed before the question.\<close>

definition table_first_formatter :: formatter where
  "table_first_formatter = medal_formatter\<lparr>cfg := medal_config\<lparr>context_first := False\<rparr>\<rparr>"

definition table_first_instance :: input_instance where
  "table_first_instance =
     \<lparr>in_tokens = [''[CLS]'', ''country'', ''text'', ''brazil'', ''[SEP]'',
                   ''how'', ''many'', ''medals'', ''[SEP]''],
      in_segment_ids = [0, 0, 0, 0, 0, 1, 1, 1, 1],
      in_column_spans =
        [(''country'',
          \<lparr>sp_first_token = (1, 2), sp_column_name = Some (1, 2), sp_value = Some (3, 4),
           sp_type = Some (2, 3), sp_other_tokens = None, sp_whole_span = Some (1, 4)\<rparr>)],
      in_context_length = 4,
      in_context_token_indices = [4, 5, 6, 7, 8]\<rparr>"

text \<open>
  Two tapes for the random source: all draws 0; and a first draw of \<open>2\<^sup>5\<^sup>2\<close> (a
  \<^verbatim>\<open>random()\<close> of 0.5) followed by zeros.
\<close>

definition zero_tape :: rng where
  "zero_tape = (\<lambda>n. 0)"

definition first_half_tape :: rng where
  "first_half_tape = (\<lambda>n. if n = 0 then 2 ^ 52 else 0)"

text \<open>
  Token sequences for a table of two and of four columns, the candidate positions of
  their columns (name and type tokens), the candidate positions of the question, and
  the sequence for an empty question.
\<close>

definition two_column_tokens :: "string list" where
  "two_column_tokens =
     [''[CLS]'', ''how'', ''many'', ''medals'', ''[SEP]'', ''country'', ''text'', ''brazil'',
      ''[SEP]'', ''year'', ''real'', ''2016'', ''[SEP]'']"

definition four_column_tokens :: "string list" where
  "four_column_tokens =
     [''[CLS]'', ''how'', ''many'', ''medals'', ''[SEP]'', ''country'', ''text'', ''brazil'',
      ''[SEP]'', ''year'', ''real'', ''2016'', ''[SEP]'', ''gold'', ''real'', ''7'',
      ''[SEP]'', ''city'', ''text'', ''rio'', ''[SEP]'']"

definition two_column_candidates :: "nat list list" where
  "two_column_candidates = [[5, 6], [9, 10]]"

definition four_column_candidates :: "nat list list" where
  "four_column_candidates = [[5, 6], [9, 10], [13, 14], [17, 18]]"

definition medal_context_candidates :: "nat list" where
  "medal_context_candidates = [1, 2, 3]"

definition empty_context_tokens :: "string list" where
  "empty_context_tokens = [''[CLS]'', ''[SEP]'', ''country'', ''text'', ''brazil'', ''[SEP]'']"

text \<open>
  Variants of the configuration: every column masked (a \<^verbatim>\<open>masked_column_prob\<close> of 1.0)
  within a budget of four predictions, and within a budget of two; and the
  \<^verbatim>\<open>column_token\<close> strategy.
\<close>

definition all_columns_formatter :: formatter where
  "all_columns_formatter =
     medal_formatter
       \<lparr>cfg := medal_config\<lparr>masked_column_prob := Double 1 0, max_predictions_per_seq := 4\<rparr>\<rparr>"

definition tight_budget_formatter :: formatter where
  "tight_budget_formatter =
     medal_formatter
       \<lparr>cfg := medal_config\<lparr>masked_column_prob := Double 1 0, max_predictions_per_seq := 2\<rparr>\<rparr>"

definition token_formatter :: formatter where
  "token_formatter =
     medal_formatter\<lparr>cfg := medal_config\<lparr>table_mask_strategy := ''column_token''\<rparr>\<rparr>"

text \<open>What \<^verbatim>\<open>create_masked_lm_predictions\<close> returns on the examples with the all-zero tape.\<close>

definition two_column_result :: "string list \<times> nat list \<times> string list \<times> mask_info" where
  "two_column_result =
     ([''[CLS]'', ''how'', ''many'', ''medals'', ''[SEP]'', ''[MASK]'', ''[MASK]'', ''brazil'',
       ''[SEP]'', ''[MASK]'', ''[MASK]'', ''2016'', ''[SEP]''],
      [9, 10, 5, 6],
      [''year'', ''real'', ''country'', ''text''],
      \<lparr>info_num_maskable_column_tokens = 4, info_num_masked_columns = Some 2,
       info_num_column_tokens_to_mask = 4, info_num_context_tokens_to_mask = 0,
       info_num_columns = None\<rparr>)"

definition four_column_result :: "string list \<times> nat list \<times> string list \<times> mask_info" where
  "four_column_result =
     ([''[CLS]'', ''how'', ''[MASK]'', ''medals'', ''[SEP]'', ''[MASK]'', ''[MASK]'', ''brazil'',
       ''[SEP]'', ''year'', ''real'', ''2016'', ''[SEP]'', ''gold'', ''real'', ''7'',
       ''[SEP]'', ''[MASK]'', ''[MASK]'', ''rio'', ''[SEP]''],
      [2, 5, 6, 17, 18],
      [''many'', ''country'', ''text'', ''city'', ''text''],
      \<lparr>info_num_maskable_column_tokens = 8, info_num_masked_columns = Some 2,
       info_num_column_tokens_to_mask = 4, info_num_context_tokens_to_mask = 1,
       info_num_columns = None\<rparr>)"

definition token_result :: "string list \<times> nat list \<times> string list \<times> mask_info" where
  "token_result =
     ([''[CLS]'', ''how'', ''[MASK]'', ''medals'', ''[SEP]'', ''[MASK]'', ''[MASK]'', ''brazil'',
       ''[SEP]'', ''year'', ''real'', ''2016'', ''[SEP]''],
      [2, 5, 6],
      [''many'', ''country'', ''text''],
      \<lparr>info_num_maskable_column_tokens = 4, info_num_masked_columns = None,
       info_num_column_tokens_to_mask = 2, info_num_context_tokens_to_mask = 1,
       info_num_columns = None\<rparr>)"

text \<open>A template without the \<^verbatim>\<open>type\<close> marker.\<close>

definition no_type_formatter :: formatter where
  "no_type_formatter =
     medal_formatter\<lparr>cfg := medal_config\<lparr>cell_input_template := [''column'', ''value'']\<rparr>\<rparr>"

text \<open>
  The span map of the column \<open>country\<close> in the example, and what
  \<^verbatim>\<open>create_pretraining_instance\<close> returns for it on the second tape.
\<close>

definition country_span :: span_map where
  "country_span =
     \<lparr>sp_first_token = (5, 6), sp_column_name = Some (5, 6), sp_value = Some (7, 8),
      sp_type = Some (6, 7), sp_other_tokens = None, sp_whole_span = Some (5, 8)\<rparr>"

definition medal_pretraining_instance :: pretraining_instance where
  "medal_pretraining_instance =
     \<lparr>inst_tokens = [''[CLS]'', ''how'', ''[MASK]'', ''medals'', ''[SEP]'',
                     ''[MASK]'', ''[MASK]'', ''brazil'', ''[SEP]''],
      token_ids = [5, 3, 6, 6, 5, 6, 6, 6, 5],
      segment_a_length = 5,
      masked_lm_positions = [2, 5, 6],
      masked_lm_labels = [''many'', ''country'', ''text''],
      masked_lm_label_ids = [4, 7, 4],
      inst_info =
        \<lparr>info_num_maskable_column_tokens = 2, info_num_masked_columns = Some 1,
         info_num_column_tokens_to_mask = 2, info_num_context_tokens_to_mask = 1,
         info_num_columns = Some 1\<rparr>\<rparr>"

section \<open>Positions and spans\<close>

text \<open>
  Membership of a position in a span of the span map (a missing key holds no
  position), in the list \<^verbatim>\<open>other_tokens\<close>, and in the candidate list that lines 145--157
  can build from a span map.
\<close>

definition in_span :: "nat \<Rightarrow> (nat \<times> nat) option \<Rightarrow> bool" where
  "in_span i s = (case s of None \<Rightarrow> False | Some (a, b) \<Rightarrow> a \<le> i \<and> i < b)"

definition in_others :: "nat \<Rightarrow> nat list option \<Rightarrow> bool" where
  "in_others i s = (case s of None \<Rightarrow> False | Some os \<Rightarrow> i \<in> set os)"

definition is_candidate :: "nat \<Rightarrow> span_map \<Rightarrow> bool" where
  "is_candidate i sp =
     (in_span i (sp_column_name sp) \<or> in_span i (sp_type sp) \<or> in_others i (sp_other_tokens sp))"

text \<open>
  Invariants of the assembly. Within a cell that starts at \<open>lo\<close> and has reached
  \<open>hi\<close>: every recorded position lies in \<open>[lo, hi)\<close>, no position of the value span is
  a candidate, and the type span holds one token. Within a table: every recorded cell
  lies in its own range, and the ranges of different cells are apart.
\<close>

definition cell_ok :: "nat \<Rightarrow> nat \<Rightarrow> span_map \<Rightarrow> bool" where
  "cell_ok lo hi sp \<longleftrightarrow>
     (\<forall>i. is_candidate i sp \<longrightarrow> lo \<le> i \<and> i < hi) \<and>
     (\<forall>i. in_span i (sp_value sp) \<longrightarrow> lo \<le> i \<and> i < hi \<and> \<not> is_candidate i sp) \<and>
     (\<forall>c d. sp_type sp = Some (c, d) \<longrightarrow> d = c + 1)"

definition span_lo :: "span_map \<Rightarrow> nat" where
  "span_lo sp = fst (sp_first_token sp)"

definition span_hi :: "span_map \<Rightarrow> nat" where
  "span_hi sp = (case sp_whole_span sp of None \<Rightarrow> 0 | Some (s, t) \<Rightarrow> t)"

definition table_ok :: "nat \<Rightarrow> nat \<Rightarrow> (string \<times> span_map) list \<Rightarrow> bool" where
  "table_ok lo hi spans \<longleftrightarrow>
     (\<forall>e\<in>set spans.
        lo \<le> span_lo (snd e) \<and> span_hi (snd e) < hi \<and>
        cell_ok (span_lo (snd e)) (span_hi (snd e)) (snd e)) \<and>
     (\<forall>e\<in>set spans. \<forall>e'\<in>set spans.
        snd e = snd e' \<or> span_hi (snd e) < span_lo (snd e') \<or> span_hi (snd e') < span_lo (snd e))"

section \<open>The assembled sequence\<close>

lemma get_input_shape:
  assumes "get_input f context header = Inr inst"
  shows "\<exists>row.
           in_tokens inst =
             (if context_first (cfg f)
              then (''[CLS]'' # context @ [''[SEP]'']) @ (row @ [''[SEP]''])
              else (''[CLS]'' # row @ [''[SEP]'']) @ (context @ [''[SEP]''])) \<and>
           in_segment_ids inst =
             (if context_first (cfg f)
              then replicate (length context + 2) 0 @ replicate (length row + 1) 1
              else replicate (length row + 2) 0 @ replicate (length context + 1) 1) \<and>
           in_context_token_indices inst =
             (if context_first (cfg f) then [0 ..< 1 + length context]
              else [length row + 1 ..< length row + length context + 3])"
proof -
  define row0 where "row0 =
    fst (header_loop f (MAX_BERT_INPUT_LENGTH f - int (length context) - 2 - 1) header [] []
           (if context_first (cfg f) then length context + 2 else 1))"
  define row where "row =
    (if last row0 = column_delimiter (cfg f) then butlast row0 else row0)"
  from assms have ne: "row0 \<noteq> []"
    by (auto simp: get_input_def Let_def row0_def split: if_splits)
  from assms ne have inst: "inst =
    (if context_first (cfg f) then
       \<lparr>in_tokens = [''[CLS]''] @ context @ [''[SEP]''] @ row @ [''[SEP]''],
        in_segment_ids = replicate (length context + 2) 0 @ replicate (length row + 1) 1,
        in_column_spans = in_column_spans inst,
        in_context_length = 1 + length context,
        in_context_token_indices = [0 ..< 1 + length context]\<rparr>
     else
       \<lparr>in_tokens = [''[CLS]''] @ row @ [''[SEP]''] @ context @ [''[SEP]''],
        in_segment_ids = replicate (length row + 2) 0 @ replicate (length context + 1) 1,
        in_column_spans = in_column_spans inst,
        in_context_length = 1 + length context,
        in_context_token_indices =
          [length row + 1 ..< length row + 1 + 1 + length context + 1]\<rparr>)"
    unfolding get_input_def Let_def row_def row0_def
    by (auto split: if_splits)
  show ?thesis
  proof (intro exI [of _ row] conjI)
    show "in_tokens inst =
             (if context_first (cfg f)
              then (''[CLS]'' # context @ [''[SEP]'']) @ (row @ [''[SEP]''])
              else (''[CLS]'' # row @ [''[SEP]'']) @ (context @ [''[SEP]'']))"
      by (subst inst) simp
    show "in_segment_ids inst =
             (if context_first (cfg f)
              then replicate (length context + 2) 0 @ replicate (length row + 1) 1
              else replicate (length row + 2) 0 @ replicate (length context + 1) 1)"
      by (subst inst) simp
    show "in_context_token_indices inst =
             (if context_first (cfg f) then [0 ..< 1 + length context]
              else [length row + 1 ..< length row + length context + 3])"
      by (subst inst) (simp add: numeral_3_eq_3)
  qed
qed

lemma medal_get_input:
  "get_input medal_formatter medal_context [country] = Inr medal_instance"
  by (simp add: get_input_def get_cell_input_def slice_to_def medal_formatter_def
        medal_config_def country_def medal_instance_def medal_context_def Let_def)

lemma table_first_get_input:
  "get_input table_first_formatter medal_context [country] = Inr table_first_instance"
  by (simp add: get_input_def get_cell_input_def slice_to_def medal_formatter_def
        table_first_formatter_def medal_config_def country_def table_first_instance_def
        medal_context_def Let_def)

lemma create_pretraining_instance_segment_a:
  assumes "create_pretraining_instance f context header g = Inr (p, g')"
  shows "\<exists>inst. get_input f context header = Inr inst \<and>
           segment_a_length p = length (filter (\<lambda>x. x = 0) (in_segment_ids inst))"
  using assms
  by (auto simp: create_pretraining_instance_def split: sum.splits prod.splits)

subsection \<open>Zero columns within the budget\<close>

text \<open>
  Whenever the header is empty or its first column does not fit, the row buffer is
  empty after the loop and \<^verbatim>\<open>get_input\<close> raises \<^verbatim>\<open>IndexError\<close>.
\<close>

lemma get_input_empty_row:
  assumes "header = [] \<or>
           MAX_BERT_INPUT_LENGTH f - int (length context) - 2 - 1
             < int (length (fst (get_cell_input (cfg f) (hd header)
                    (slice_to (sample_value_tokens (hd header)) (max_cell_len (cfg f)))
                    (if context_first (cfg f) then length context + 2 else 1)))) + 1"
  shows "get_input f context header = Inl IndexError"
proof (cases header)
  case Nil
  then show ?thesis by (simp add: get_input_def)
next
  case (Cons column rest)
  with assms show ?thesis by (simp add: get_input_def Let_def)
qed

text \<open>
  C2. The claim: when not even the first column fits in the table-token budget,
  \<^verbatim>\<open>get_input\<close> returns a sequence made of the context and the separators only. The
  code does not: the row buffer stays empty and line 89 reads its last element. With the
  real budget of 512, a context of 507 tokens leaves room for two table tokens; the
  column \<open>country\<close> needs four, and the call ends in \<^verbatim>\<open>IndexError\<close>.
\<close>

theorem get_input_no_column_fits:
  "get_input medal_formatter (replicate 507 ''how'') [country] = Inl IndexError"
  by (simp add: get_input_def get_cell_input_def slice_to_def medal_formatter_def
        medal_config_def country_def Let_def)

subsection \<open>The worked example\<close>

text \<open>
  C5, as stated: the example yields the sequence
  \<^verbatim>\<open>[CLS] how many medals [SEP] country text brazil [SEP]\<close> and the span \<open>(6, 7)\<close> for the
  column name. The sequence is right, the span is not: the name token stands at
  position 5.
\<close>

theorem scenario_column_name_not_6_7:
  "get_input medal_formatter medal_context [country] = Inr medal_instance \<and>
   in_tokens medal_instance = [''[CLS]'', ''how'', ''many'', ''medals'', ''[SEP]'',
                              ''country'', ''text'', ''brazil'', ''[SEP]''] \<and>
   map_option sp_column_name (map_of (in_column_spans medal_instance) ''country'')
     \<noteq> Some (Some (6, 7))"
  by (simp add: medal_get_input) (simp add: medal_instance_def)

text \<open>
  C5, amended: for the context \<^verbatim>\<open>["how", "many", "medals"]\<close>, one column with name tokens
  \<^verbatim>\<open>["country"]\<close>, type \<^verbatim>\<open>"text"\<close> and sampled value \<^verbatim>\<open>["brazil"]\<close>, the template
  \<^verbatim>\<open>[column, type, value]\<close> and \<^verbatim>\<open>context_first\<close>, whatever the delimiter, a cell limit of
  at least 1 and a length budget of at least 10, \<^verbatim>\<open>get_input\<close> returns the sequence
  \<^verbatim>\<open>[CLS] how many medals [SEP] country text brazil [SEP]\<close> and the column-name span
  \<open>(5, 6)\<close>.
\<close>

theorem scenario_column_name_5_6:
  assumes "cell_input_template (cfg f) = [''column'', ''type'', ''value'']"
    and "context_first (cfg f)"
    and "1 \<le> max_cell_len (cfg f)"
    and "10 \<le> MAX_BERT_INPUT_LENGTH f"
    and "col_name col = ''country''" and "name_tokens col = [''country'']"
    and "col_type col = ''text''" and "sample_value_tokens col = [''brazil'']"
  shows "\<exists>inst sp. get_input f [''how'', ''many'', ''medals''] [col] = Inr inst \<and>
           in_tokens inst = [''[CLS]'', ''how'', ''many'', ''medals'', ''[SEP]'',
                             ''country'', ''text'', ''brazil'', ''[SEP]''] \<and>
           in_column_spans inst = [(''country'', sp)] \<and>
           sp_column_name sp = Some (5, 6)"
proof -
  have v: "slice_to [''brazil''] (max_cell_len (cfg f)) = [''brazil'']"
    using assms(3) by (simp add: slice_to_def)
  show ?thesis
    using assms v
    by (simp add: get_input_def get_cell_input_def Let_def)
qed

theorem scenario_column_name_5_6_witness:
  "cell_input_template (cfg medal_formatter) = [''column'', ''type'', ''value''] \<and>
   context_first (cfg medal_formatter) \<and>
   1 \<le> max_cell_len (cfg medal_formatter) \<and>
   10 \<le> MAX_BERT_INPUT_LENGTH medal_formatter \<and>
   (\<exists>inst sp. get_input medal_formatter [''how'', ''many'', ''medals''] [country] = Inr inst \<and>
      in_tokens inst = [''[CLS]'', ''how'', ''many'', ''medals'', ''[SEP]'',
                        ''country'', ''text'', ''brazil'', ''[SEP]''] \<and>
      in_column_spans inst = [(''country'', sp)] \<and>
      sp_column_name sp = Some (5, 6))"
proof -
  have a: "cell_input_template (cfg medal_formatter) = [''column'', ''type'', ''value'']"
    and b: "context_first (cfg medal_formatter)"
    and c: "1 \<le> max_cell_len (cfg medal_formatter)"
    and d: "10 \<le> MAX_BERT_INPUT_LENGTH medal_formatter"
    by (simp_all add: medal_formatter_def medal_config_def)
  have e: "col_name country = ''country''" "name_tokens country = [''country'']"
    "col_type country = ''text''" "sample_value_tokens country = [''brazil'']"
    by (simp_all add: country_def)
  from scenario_column_name_5_6 [OF a b c d e] a b c d show ?thesis
    by blast
qed

section \<open>What the random functions guarantee\<close>

lemma randbelow_less: "0 < n \<Longrightarrow> fst (randbelow n g) < n"
  by (simp add: randbelow_def split: prod.splits)

lemma mset_butlast_update:
  assumes "j < length xs"
  shows "mset (butlast (xs[j := last xs])) = mset xs - {#xs ! j#}"
proof (cases xs rule: rev_cases)
  case Nil
  with assms show ?thesis by simp
next
  case (snoc ys z)
  show ?thesis
  proof (cases "j < length ys")
    case True
    then have "ys ! j \<in># mset ys" by simp
    with True snoc show ?thesis
      by (simp add: list_update_append nth_append mset_update)
  next
    case False
    with assms snoc have "j = length ys" by simp
    with snoc show ?thesis by (simp add: list_update_append)
  qed
qed

lemma sample_loop_props:
  "k \<le> length pool \<Longrightarrow>
     length (fst (sample_loop k pool g)) = k \<and> mset (fst (sample_loop k pool g)) \<subseteq># mset pool"
proof (induction k arbitrary: pool g)
  case 0
  then show ?case by simp
next
  case (Suc k)
  obtain j g' where r: "randbelow (length pool) g = (j, g')"
    by (cases "randbelow (length pool) g")
  from Suc.prems have pos: "0 < length pool" by linarith
  from randbelow_less [OF pos, of g] r have j: "j < length pool" by simp
  define pool' where "pool' = butlast (pool[j := last pool])"
  have len: "k \<le> length pool'"
    using Suc.prems by (simp add: pool'_def)
  have ms: "mset pool' = mset pool - {#pool ! j#}"
    unfolding pool'_def by (rule mset_butlast_update [OF j])
  obtain ys g'' where s: "sample_loop k pool' g' = (ys, g'')"
    by (cases "sample_loop k pool' g'")
  from Suc.IH [OF len, of g'] s
  have ih: "length ys = k" "mset ys \<subseteq># mset pool - {#pool ! j#}"
    by (simp_all add: ms)
  have mem: "pool ! j \<in># mset pool"
    using j by simp
  have "add_mset (pool ! j) (mset ys) \<subseteq># add_mset (pool ! j) (mset pool - {#pool ! j#})"
    using ih(2) by simp
  also have "\<dots> = mset pool"
    using mem by simp
  finally have "mset (pool ! j # ys) \<subseteq># mset pool" by simp
  with ih(1) r s show ?case
    by (simp add: pool'_def)
qed

lemma sample_Inr:
  assumes "sample population k g = Inr (s, g')"
  shows "0 \<le> k" and "k \<le> int (length population)" and "int (length s) = k"
    and "mset s \<subseteq># mset population"
proof -
  from assms show k: "0 \<le> k" "k \<le> int (length population)"
    by (auto simp: sample_def split: if_splits)
  then have le: "nat k \<le> length population" by simp
  from assms k have s: "s = fst (sample_loop (nat k) population g)"
    by (auto simp: sample_def)
  from sample_loop_props [OF le, of g] s k
  show "int (length s) = k" and "mset s \<subseteq># mset population"
    by simp_all
qed

lemma sample_ok:
  "0 \<le> k \<Longrightarrow> k \<le> int (length population) \<Longrightarrow> \<exists>r. sample population k g = Inr r"
  by (simp add: sample_def)

lemma sample_not_RuntimeError: "sample population k g \<noteq> Inl RuntimeError"
  by (simp add: sample_def)

lemma shuffle_loop_mset:
  "i < length xs \<Longrightarrow> mset (fst (shuffle_loop i xs g)) = mset xs"
proof (induction i arbitrary: xs g)
  case 0
  then show ?case by simp
next
  case (Suc i)
  obtain j g' where r: "randbelow (Suc (Suc i)) g = (j, g')"
    by (cases "randbelow (Suc (Suc i)) g")
  from randbelow_less [of "Suc (Suc i)" g] r have "j < Suc (Suc i)" by simp
  with Suc.prems have j: "j < length xs" by simp
  have sw: "mset (xs[Suc i := xs ! j, j := xs ! Suc i]) = mset xs"
    using mset_swap [OF j Suc.prems] .
  have "i < length (xs[Suc i := xs ! j, j := xs ! Suc i])"
    using Suc.prems by simp
  from Suc.IH [OF this, of g'] r sw show ?case by simp
qed

lemma shuffle_mset: "mset (fst (shuffle xs g)) = mset xs"
proof (cases xs)
  case Nil
  then show ?thesis by (simp add: shuffle_def)
next
  case (Cons x ys)
  then have "length xs - 1 < length xs" by simp
  from shuffle_loop_mset [OF this] show ?thesis by (simp add: shuffle_def)
qed

lemma shuffle_length: "length (fst (shuffle xs g)) = length xs"
  using shuffle_mset [of xs g] by (metis size_mset)

lemma sub_mset_distinct:
  assumes "mset ys \<subseteq># mset xs" and "distinct xs"
  shows "distinct ys"
proof -
  have "count (mset ys) a = (if a \<in> set ys then 1 else 0)" for a
  proof (cases "a \<in> set ys")
    case True
    then have "a \<in># mset ys" by simp
    then have "1 \<le> count (mset ys) a" by (simp only: count_greater_eq_one_iff)
    moreover have "count (mset ys) a \<le> count (mset xs) a"
      using assms(1) by (rule mset_subset_eq_count)
    moreover have "count (mset xs) a \<le> 1"
      using assms(2) by (simp add: distinct_count_atmost_1)
    ultimately have "count (mset ys) a = 1" by linarith
    with True show ?thesis by simp
  next
    case False
    then show ?thesis by (simp add: count_eq_zero_iff)
  qed
  then show ?thesis by (simp add: distinct_count_atmost_1)
qed

section \<open>The masking steps\<close>

lemma max_py_int: "0 < k \<Longrightarrow> max k (py_int x) = max k \<lfloor>x\<rfloor>"
proof (cases "0 \<le> x")
  case True
  then show ?thesis by (simp add: py_int_def)
next
  case False
  assume k: "0 < k"
  from False have "x \<le> 0" by simp
  then have c: "\<lceil>x\<rceil> \<le> 0" by (simp add: ceiling_le_zero)
  have "\<lfloor>x\<rfloor> \<le> \<lceil>x\<rceil>" by (rule floor_le_ceiling)
  with c have fl: "\<lfloor>x\<rfloor> \<le> 0" by linarith
  from k c have "max k \<lceil>x\<rceil> = k" by linarith
  moreover from k fl have "max k \<lfloor>x\<rfloor> = k" by linarith
  ultimately show ?thesis using False by (simp only: py_int_def if_False)
qed

lemma round_double_error: "round_double m e = Inl err \<Longrightarrow> err = OverflowError"
  by (auto simp: round_double_def Let_def split: if_splits)

lemma nat_times_float_error:
  assumes "nat_times_float n p = Inl err"
  shows "err = OverflowError"
proof (cases "float_of_nat n")
  case (Inl e)
  with assms have "round_double (int n) 0 = Inl err"
    by (simp add: nat_times_float_def float_of_nat_def)
  then show ?thesis by (rule round_double_error)
next
  case (Inr x)
  obtain m1 e1 where x: "x = Double m1 e1" by (cases x)
  obtain m2 e2 where p: "p = Double m2 e2" by (cases p)
  from assms Inr x p have "round_double (m1 * m2) (e1 + e2) = Inl err"
    by (simp add: nat_times_float_def)
  then show ?thesis by (rule round_double_error)
qed

lemma nat_times_float_cases:
  obtains x where "nat_times_float n p = Inr x" | "nat_times_float n p = Inl OverflowError"
proof (cases "nat_times_float n p")
  case (Inl e)
  with nat_times_float_error [OF Inl] that(2) show ?thesis by simp
next
  case (Inr x)
  with that(1) show ?thesis .
qed

text \<open>The column-token branch, once the product is known.\<close>

lemma mask_columns_token_unfold:
  assumes "table_mask_strategy (cfg f) = ''column_token''"
    and "nat_times_float (length (concat column_indices)) (masked_column_prob (cfg f)) = Inr x"
    and "shuffle (concat column_indices) g = (pool, g1)"
  shows "mask_columns f column_indices g =
           (case sample pool
                   (min (max_predictions_per_seq (cfg f)) (max 2 \<lfloor>double_value x\<rfloor>)) g1 of
              Inl e \<Rightarrow> Inl e
            | Inr (s, g2) \<Rightarrow>
                Inr (min (max_predictions_per_seq (cfg f)) (max 2 \<lfloor>double_value x\<rfloor>),
                     sort s, None, g2))"
  using assms by (simp add: mask_columns_def Let_def max_py_int)

lemma mask_columns_column_unfold:
  assumes "table_mask_strategy (cfg f) = ''column''"
    and "nat_times_float (length column_indices) (masked_column_prob (cfg f)) = Inr x"
  shows "mask_columns f column_indices g =
           (case sample [0 ..< length column_indices] (max 1 \<lceil>double_value x\<rceil>) g of
              Inl e \<Rightarrow> Inl e
            | Inr (s, g1) \<Rightarrow>
                (case shuffle (sort s) g1 of
                   (columns_to_mask, g2) \<Rightarrow>
                     Inr (int (sum_list (map (\<lambda>i. length (column_indices ! i)) columns_to_mask)),
                          concat (map (\<lambda>col. column_indices ! col) columns_to_mask),
                          Some (max 1 \<lceil>double_value x\<rceil>), g2)))"
  using assms by (simp add: mask_columns_def Let_def)

lemma mask_columns_product:
  assumes "mask_columns f column_indices g = Inr r"
  shows "table_mask_strategy (cfg f) = ''column_token'' \<longrightarrow>
           (\<exists>x. nat_times_float (length (concat column_indices)) (masked_column_prob (cfg f))
                  = Inr x)"
    and "table_mask_strategy (cfg f) = ''column'' \<longrightarrow>
           (\<exists>x. nat_times_float (length column_indices) (masked_column_prob (cfg f)) = Inr x)"
  using assms
  by (auto simp: mask_columns_def Let_def split: sum.splits if_splits)

lemma mask_columns_column_token:
  assumes t: "table_mask_strategy (cfg f) = ''column_token''"
    and mc: "mask_columns f column_indices g = Inr (n, idxs, mc, g')"
  shows "\<exists>x. nat_times_float (length (concat column_indices)) (masked_column_prob (cfg f))
                = Inr x \<and>
              n = min (max_predictions_per_seq (cfg f)) (max 2 \<lfloor>double_value x\<rfloor>)"
    and "int (length idxs) = n"
    and "mset idxs \<subseteq># mset (concat column_indices)"
    and "sorted idxs"
    and "mc = None"
proof -
  from mask_columns_product(1) [OF mc] t obtain x where
    px: "nat_times_float (length (concat column_indices)) (masked_column_prob (cfg f)) = Inr x"
    by blast
  define num where "num = min (max_predictions_per_seq (cfg f)) (max 2 \<lfloor>double_value x\<rfloor>)"
  obtain pool g1 where sh: "shuffle (concat column_indices) g = (pool, g1)"
    by (cases "shuffle (concat column_indices) g")
  from mc mask_columns_token_unfold [OF t px sh, of] obtain s where
    sa: "sample pool num g1 = Inr (s, g')"
    and res: "n = num" "idxs = sort s" "mc = None"
    by (auto simp: num_def split: sum.splits)
  have p: "mset pool = mset (concat column_indices)"
    using shuffle_mset [of "concat column_indices" g] sh by simp
  from px res(1) show "\<exists>x. nat_times_float (length (concat column_indices))
                  (masked_column_prob (cfg f)) = Inr x \<and>
              n = min (max_predictions_per_seq (cfg f)) (max 2 \<lfloor>double_value x\<rfloor>)"
    unfolding num_def by blast
  show "int (length idxs) = n"
    using sample_Inr(3) [OF sa] res by simp
  show "mset idxs \<subseteq># mset (concat column_indices)"
    using sample_Inr(4) [OF sa] res p by simp
  show "sorted idxs" using res by simp
  show "mc = None" by fact
qed

lemma mask_columns_column:
  assumes t: "table_mask_strategy (cfg f) = ''column''"
    and mc: "mask_columns f column_indices g = Inr (n, idxs, mc, g')"
  shows "\<exists>x cols.
           nat_times_float (length column_indices) (masked_column_prob (cfg f)) = Inr x \<and>
           distinct cols \<and> set cols \<subseteq> {..< length column_indices} \<and>
           int (length cols) = max 1 \<lceil>double_value x\<rceil> \<and>
           mc = Some (max 1 \<lceil>double_value x\<rceil>) \<and>
           idxs = concat (map (\<lambda>col. column_indices ! col) cols) \<and>
           n = int (length idxs)"
proof -
  from mask_columns_product(2) [OF mc] t obtain x where
    px: "nat_times_float (length column_indices) (masked_column_prob (cfg f)) = Inr x"
    by blast
  define num where "num = max 1 \<lceil>double_value x\<rceil>"
  from mc mask_columns_column_unfold [OF t px, of g] obtain s g1 where
    sa: "sample [0 ..< length column_indices] num g = Inr (s, g1)"
    by (auto simp: num_def split: sum.splits)
  obtain cols g2 where sh: "shuffle (sort s) g1 = (cols, g2)"
    by (cases "shuffle (sort s) g1")
  from mc mask_columns_column_unfold [OF t px, of g] sa sh have res:
    "n = int (sum_list (map (\<lambda>i. length (column_indices ! i)) cols))"
    "idxs = concat (map (\<lambda>col. column_indices ! col) cols)"
    "mc = Some num"
    by (auto simp: num_def)
  have m: "mset cols = mset s"
    using shuffle_mset [of "sort s" g1] sh by simp
  have sub: "mset cols \<subseteq># mset [0 ..< length column_indices]"
    using sample_Inr(4) [OF sa] m by simp
  have d: "distinct cols"
    using sub_mset_distinct [OF sub] by simp
  have r: "set cols \<subseteq> {..< length column_indices}"
    using set_mset_mono [OF sub] by auto
  have l: "int (length cols) = num"
    using sample_Inr(3) [OF sa] m by (metis size_mset)
  have n: "n = int (length idxs)"
    using res by (simp add: length_concat comp_def)
  from px d r l res n show ?thesis
    unfolding num_def by blast
qed

lemma mask_columns_error:
  "mask_columns f column_indices g = Inl RuntimeError \<longleftrightarrow>
     table_mask_strategy (cfg f) \<noteq> ''column_token'' \<and> table_mask_strategy (cfg f) \<noteq> ''column''"
proof
  assume "mask_columns f column_indices g = Inl RuntimeError"
  then show "table_mask_strategy (cfg f) \<noteq> ''column_token'' \<and>
             table_mask_strategy (cfg f) \<noteq> ''column''"
    by (auto simp: mask_columns_def Let_def sample_not_RuntimeError
        dest: nat_times_float_error split: sum.splits prod.splits if_splits)
next
  assume "table_mask_strategy (cfg f) \<noteq> ''column_token'' \<and>
          table_mask_strategy (cfg f) \<noteq> ''column''"
  then show "mask_columns f column_indices g = Inl RuntimeError"
    by (simp add: mask_columns_def)
qed

text \<open>The context step, once the product is known.\<close>

lemma mask_context_unfold:
  assumes "nat_times_float (length context_indices) (masked_context_prob (cfg f)) = Inr y"
  shows "mask_context f context_indices n col_idxs g =
           (if 0 < min (max_predictions_per_seq (cfg f) - n) (max 1 \<lfloor>double_value y\<rfloor>) then
              (case shuffle context_indices g of
                 (pool, g1) \<Rightarrow>
                   (case sample pool
                           (min (max_predictions_per_seq (cfg f) - n)
                                (max 1 \<lfloor>double_value y\<rfloor>)) g1 of
                      Inl e \<Rightarrow> Inl e
                    | Inr (s, g2) \<Rightarrow>
                        Inr (min (max_predictions_per_seq (cfg f) - n)
                                 (max 1 \<lfloor>double_value y\<rfloor>),
                             sort (sort s @ col_idxs), g2)))
            else Inr (min (max_predictions_per_seq (cfg f) - n) (max 1 \<lfloor>double_value y\<rfloor>),
                      col_idxs, g))"
  using assms by (simp add: mask_context_def Let_def max_py_int)

lemma mask_context_product:
  assumes "mask_context f context_indices n col_idxs g = Inr r"
  shows "\<exists>y. nat_times_float (length context_indices) (masked_context_prob (cfg f)) = Inr y"
  using assms by (auto simp: mask_context_def Let_def split: sum.splits)

lemma mask_context_Inr:
  assumes mx: "mask_context f context_indices n col_idxs g = Inr (nc, midx, g')"
  shows "\<exists>y. nat_times_float (length context_indices) (masked_context_prob (cfg f)) = Inr y \<and>
              nc = min (max_predictions_per_seq (cfg f) - n) (max 1 \<lfloor>double_value y\<rfloor>)"
    and "\<exists>sel. mset sel \<subseteq># mset context_indices \<and>
           (if 0 < nc then int (length sel) = nc \<and> midx = sort (sel @ col_idxs)
            else sel = [] \<and> midx = col_idxs)"
proof -
  from mask_context_product [OF mx] obtain y where
    py: "nat_times_float (length context_indices) (masked_context_prob (cfg f)) = Inr y"
    by blast
  define num where "num =
    min (max_predictions_per_seq (cfg f) - n) (max 1 \<lfloor>double_value y\<rfloor>)"
  note u = mask_context_unfold [OF py, of n col_idxs g, folded num_def]
  from mx u have nc: "nc = num"
    by (auto split: if_splits prod.splits sum.splits)
  from py nc show "\<exists>y. nat_times_float (length context_indices)
                            (masked_context_prob (cfg f)) = Inr y \<and>
              nc = min (max_predictions_per_seq (cfg f) - n) (max 1 \<lfloor>double_value y\<rfloor>)"
    unfolding num_def by blast
  show "\<exists>sel. mset sel \<subseteq># mset context_indices \<and>
           (if 0 < nc then int (length sel) = nc \<and> midx = sort (sel @ col_idxs)
            else sel = [] \<and> midx = col_idxs)"
  proof (cases "0 < num")
    case True
    obtain pool g1 where sh: "shuffle context_indices g = (pool, g1)"
      by (cases "shuffle context_indices g")
    from mx u True sh obtain s where sa: "sample pool num g1 = Inr (s, g')"
      and res: "midx = sort (sort s @ col_idxs)"
      by (auto split: sum.splits)
    have p: "mset pool = mset context_indices"
      using shuffle_mset [of context_indices g] sh by simp
    have "mset (sort s) \<subseteq># mset context_indices"
      using sample_Inr(4) [OF sa] p by simp
    moreover have "int (length (sort s)) = nc"
      using sample_Inr(3) [OF sa] nc by simp
    ultimately show ?thesis using True nc res
      by (intro exI [of _ "sort s"]) simp
  next
    case False
    with mx u have "midx = col_idxs" by auto
    with False nc show ?thesis by auto
  qed
qed

lemma mask_context_not_RuntimeError:
  "mask_context f context_indices n col_idxs g \<noteq> Inl RuntimeError"
  by (auto simp: mask_context_def Let_def sample_not_RuntimeError
      dest: nat_times_float_error split: sum.splits prod.splits)

lemma choice_not_RuntimeError: "choice xs g \<noteq> Inl RuntimeError"
  by (simp add: choice_def split: prod.splits)

lemma mask_loop_Inr:
  "mask_loop vocab idxs tokens labels g = Inr (t', l', g') \<Longrightarrow>
     length t' = length tokens \<and> length l' = length labels + length idxs \<and>
     (\<forall>i\<in>set idxs. i < length tokens)"
proof (induction idxs arbitrary: tokens labels g)
  case Nil
  then show ?case by simp
next
  case (Cons index rest)
  from Cons.prems obtain masked_token g3 where
    i: "index < length tokens"
    and r: "mask_loop vocab rest (tokens[index := masked_token]) (labels @ [tokens ! index]) g3
              = Inr (t', l', g')"
    by (auto split: prod.splits sum.splits if_splits)
  from Cons.IH [OF r] i show ?case by simp
qed

lemma mask_loop_not_RuntimeError:
  "mask_loop vocab idxs tokens labels g \<noteq> Inl RuntimeError"
proof (induction idxs arbitrary: tokens labels g)
  case Nil
  then show ?case by simp
next
  case (Cons index rest)
  then show ?case
    by (auto simp: choice_not_RuntimeError split: prod.splits sum.splits if_splits)
qed

lemma mask_loop_ok:
  "\<forall>i\<in>set idxs. i < length tokens \<Longrightarrow> vocab \<noteq> [] \<Longrightarrow>
     \<exists>r. mask_loop vocab idxs tokens labels g = Inr r"
proof (induction idxs arbitrary: tokens labels g)
  case Nil
  then show ?case by simp
next
  case (Cons index rest)
  have c: "choice vocab h \<noteq> Inl e" for h e
    using Cons.prems(2) by (simp add: choice_def split: prod.splits)
  have ih: "\<exists>r. mask_loop vocab rest tk lb h = Inr r"
    if "length tk = length tokens" for tk lb h
    using Cons.IH [of tk lb h] Cons.prems that by simp
  have i: "index < length tokens"
    using Cons.prems(1) by simp
  obtain r1 g1 where r1: "random_unit g = (r1, g1)"
    by (cases "random_unit g")
  obtain r2 g2 where r2: "random_unit g1 = (r2, g2)"
    by (cases "random_unit g1")
  show ?case
  proof (cases "r1 < 8 / 10")
    case True
    with r1 i ih [of "tokens[index := ''[MASK]'']"] show ?thesis by simp
  next
    case False
    show ?thesis
    proof (cases "r2 < 5 / 10")
      case True
      with False r1 r2 i ih [of tokens] show ?thesis by simp
    next
      case hi: False
      obtain w g3 where w: "choice vocab g2 = Inr (w, g3)"
        using c [of g2] by (cases "choice vocab g2") auto
      with hi False r1 r2 i ih [of "tokens[index := w]"] show ?thesis by simp
    qed
  qed
qed

lemma create_masked_lm_predictions_Inr:
  assumes "create_masked_lm_predictions f tokens context_indices column_indices g
             = Inr ((masked_tokens, positions, labels, info), g')"
  shows "\<exists>n idxs mc g1 nc g2.
           mask_columns f column_indices g = Inr (n, idxs, mc, g1) \<and>
           mask_context f context_indices n idxs g1 = Inr (nc, positions, g2) \<and>
           mask_loop (vocab_list f) positions tokens [] g2 = Inr (masked_tokens, labels, g') \<and>
           info_num_maskable_column_tokens info = sum_list (map length column_indices) \<and>
           info_num_masked_columns info = mc \<and>
           info_num_column_tokens_to_mask info = n \<and>
           info_num_context_tokens_to_mask info = nc"
  using assms
  by (auto simp: create_masked_lm_predictions_def split: sum.splits prod.splits)

lemma create_masked_lm_predictions_error:
  "create_masked_lm_predictions f tokens context_indices column_indices g = Inl RuntimeError
     \<longleftrightarrow> table_mask_strategy (cfg f) \<noteq> ''column_token'' \<and>
         table_mask_strategy (cfg f) \<noteq> ''column''"
  using mask_columns_error [of f column_indices g]
  by (auto simp: create_masked_lm_predictions_def mask_context_not_RuntimeError
      mask_loop_not_RuntimeError split: sum.splits prod.splits)

subsection \<open>Running the masking steps on the example tapes\<close>

lemma shuffle_loop_numeral:
  "shuffle_loop (numeral k) xs g =
     (case randbelow (Suc (numeral k)) g of
        (j, g') \<Rightarrow>
          shuffle_loop (pred_numeral k) (xs[numeral k := xs ! j, j := xs ! numeral k]) g')"
  by (simp add: numeral_eq_Suc)

lemma sample_loop_numeral:
  "sample_loop (numeral k) pool g =
     (case randbelow (length pool) g of
        (j, g') \<Rightarrow>
          (case sample_loop (pred_numeral k) (butlast (pool[j := last pool])) g' of
             (ys, g'') \<Rightarrow> (pool ! j # ys, g'')))"
  by (simp add: numeral_eq_Suc)

lemma rand_next_zero: "rand_next zero_tape = (0, zero_tape)"
  by (simp add: rand_next_def zero_tape_def)

lemma rand_next_first_half: "rand_next first_half_tape = (2 ^ 52, zero_tape)"
  by (simp add: rand_next_def first_half_tape_def zero_tape_def)

lemmas example_defs =
  medal_formatter_def medal_config_def two_column_candidates_def four_column_candidates_def
  medal_context_candidates_def

lemma bits_over_53_small: "m < 2 ^ 53 \<Longrightarrow> bits_over_53 m = 0"
  by (simp add: bits_over_53.simps)

lemma bits_over_53_large: "2 ^ 53 \<le> m \<Longrightarrow> bits_over_53 m = Suc (bits_over_53 (m div 2))"
  by (subst bits_over_53.simps) simp

lemmas float_simps =
  nat_times_float_def float_of_nat_def round_double_def round_half_even_def
  bits_over_53_small bits_over_53_large Let_def

lemmas run_simps =
  create_masked_lm_predictions_def mask_columns_def mask_context_def sample_def shuffle_def
  randbelow_def random_unit_def choice_def py_int_def context_candidate_indices_def Let_def
  shuffle_loop_numeral sample_loop_numeral rand_next_zero rand_next_first_half float_simps

lemma four_column_run:
  "create_masked_lm_predictions medal_formatter four_column_tokens medal_context_candidates
     four_column_candidates zero_tape = Inr (four_column_result, zero_tape)"
  by (simp add: run_simps example_defs four_column_tokens_def four_column_result_def)

lemma token_run:
  "create_masked_lm_predictions token_formatter two_column_tokens medal_context_candidates
     two_column_candidates zero_tape = Inr (token_result, zero_tape)"
  by (simp add: run_simps token_formatter_def example_defs two_column_tokens_def
      token_result_def)

section \<open>Masked positions\<close>

lemma mask_columns_strategy:
  assumes "mask_columns f column_indices g = Inr r"
  shows "table_mask_strategy (cfg f) = ''column_token'' \<or> table_mask_strategy (cfg f) = ''column''"
  using assms by (auto simp: mask_columns_def split: if_splits)

text \<open>
  Whether \<^verbatim>\<open>sample\<close> accepts the requested count decides each step: a count that is
  negative or larger than the pool ends the call in \<^verbatim>\<open>ValueError\<close>, any other count is
  served.
\<close>

lemma mask_columns_token_fits:
  assumes t: "table_mask_strategy (cfg f) = ''column_token''"
    and px: "nat_times_float (length (concat column_indices)) (masked_column_prob (cfg f))
               = Inr x"
  shows "min (max_predictions_per_seq (cfg f)) (max 2 \<lfloor>double_value x\<rfloor>) < 0 \<or>
         int (length (concat column_indices))
           < min (max_predictions_per_seq (cfg f)) (max 2 \<lfloor>double_value x\<rfloor>)
         \<Longrightarrow> mask_columns f column_indices g = Inl ValueError"
    and "0 \<le> min (max_predictions_per_seq (cfg f)) (max 2 \<lfloor>double_value x\<rfloor>) \<Longrightarrow>
         min (max_predictions_per_seq (cfg f)) (max 2 \<lfloor>double_value x\<rfloor>)
           \<le> int (length (concat column_indices))
         \<Longrightarrow> \<exists>s g2. mask_columns f column_indices g
                       = Inr (min (max_predictions_per_seq (cfg f))
                                  (max 2 \<lfloor>double_value x\<rfloor>), s, None, g2)"
proof -
  define num where "num = min (max_predictions_per_seq (cfg f)) (max 2 \<lfloor>double_value x\<rfloor>)"
  obtain pool g1 where sh: "shuffle (concat column_indices) g = (pool, g1)"
    by (cases "shuffle (concat column_indices) g")
  have l: "length pool = length (concat column_indices)"
    using shuffle_length [of "concat column_indices" g] sh by simp
  note u = mask_columns_token_unfold [OF t px sh, folded num_def]
  have bad: "mask_columns f column_indices g = Inl ValueError"
    if "num < 0 \<or> int (length (concat column_indices)) < num"
  proof -
    from that l have "sample pool num g1 = Inl ValueError"
      by (auto simp: sample_def)
    with u show ?thesis by simp
  qed
  have good: "\<exists>s g2. mask_columns f column_indices g = Inr (num, s, None, g2)"
    if "0 \<le> num" "num \<le> int (length (concat column_indices))"
  proof -
    from that l have "\<exists>r. sample pool num g1 = Inr r"
      by (simp add: sample_def)
    then obtain s g2 where "sample pool num g1 = Inr (s, g2)" by force
    with u show ?thesis by simp
  qed
  from bad show "min (max_predictions_per_seq (cfg f)) (max 2 \<lfloor>double_value x\<rfloor>) < 0 \<or>
         int (length (concat column_indices))
           < min (max_predictions_per_seq (cfg f)) (max 2 \<lfloor>double_value x\<rfloor>)
         \<Longrightarrow> mask_columns f column_indices g = Inl ValueError"
    unfolding num_def .
  from good show "0 \<le> min (max_predictions_per_seq (cfg f)) (max 2 \<lfloor>double_value x\<rfloor>) \<Longrightarrow>
         min (max_predictions_per_seq (cfg f)) (max 2 \<lfloor>double_value x\<rfloor>)
           \<le> int (length (concat column_indices))
         \<Longrightarrow> \<exists>s g2. mask_columns f column_indices g
                       = Inr (min (max_predictions_per_seq (cfg f))
                                  (max 2 \<lfloor>double_value x\<rfloor>), s, None, g2)"
    unfolding num_def .
qed

lemma mask_columns_column_fits:
  assumes t: "table_mask_strategy (cfg f) = ''column''"
    and px: "nat_times_float (length column_indices) (masked_column_prob (cfg f)) = Inr x"
  shows "int (length column_indices) < max 1 \<lceil>double_value x\<rceil>
         \<Longrightarrow> mask_columns f column_indices g = Inl ValueError"
    and "max 1 \<lceil>double_value x\<rceil> \<le> int (length column_indices)
         \<Longrightarrow> \<exists>r. mask_columns f column_indices g = Inr r"
proof -
  define num where "num = max 1 \<lceil>double_value x\<rceil>"
  note u = mask_columns_column_unfold [OF t px, of g, folded num_def]
  have pos: "0 \<le> num" by (simp add: num_def)
  have bad: "mask_columns f column_indices g = Inl ValueError"
    if "int (length column_indices) < num"
  proof -
    from that have "sample [0 ..< length column_indices] num g = Inl ValueError"
      by (simp add: sample_def)
    with u show ?thesis by simp
  qed
  have good: "\<exists>r. mask_columns f column_indices g = Inr r"
    if "num \<le> int (length column_indices)"
  proof -
    from that pos have "\<exists>r. sample [0 ..< length column_indices] num g = Inr r"
      by (simp add: sample_def)
    then obtain s g1 where "sample [0 ..< length column_indices] num g = Inr (s, g1)" by force
    with u show ?thesis by (simp split: prod.splits)
  qed
  from bad show "int (length column_indices) < max 1 \<lceil>double_value x\<rceil>
         \<Longrightarrow> mask_columns f column_indices g = Inl ValueError"
    unfolding num_def .
  from good show "max 1 \<lceil>double_value x\<rceil> \<le> int (length column_indices)
         \<Longrightarrow> \<exists>r. mask_columns f column_indices g = Inr r"
    unfolding num_def .
qed

lemma mask_context_fits:
  assumes py: "nat_times_float (length context_indices) (masked_context_prob (cfg f)) = Inr y"
  shows "int (length context_indices)
           < min (max_predictions_per_seq (cfg f) - n) (max 1 \<lfloor>double_value y\<rfloor>)
         \<Longrightarrow> mask_context f context_indices n col_idxs g = Inl ValueError"
    and "min (max_predictions_per_seq (cfg f) - n) (max 1 \<lfloor>double_value y\<rfloor>)
           \<le> int (length context_indices)
         \<Longrightarrow> \<exists>r. mask_context f context_indices n col_idxs g = Inr r"
proof -
  define num where "num =
    min (max_predictions_per_seq (cfg f) - n) (max 1 \<lfloor>double_value y\<rfloor>)"
  note u = mask_context_unfold [OF py, of n col_idxs g, folded num_def]
  obtain pool g1 where sh: "shuffle context_indices g = (pool, g1)"
    by (cases "shuffle context_indices g")
  have l: "length pool = length context_indices"
    using shuffle_length [of context_indices g] sh by simp
  have bad: "mask_context f context_indices n col_idxs g = Inl ValueError"
    if "int (length context_indices) < num"
  proof -
    from that have p: "0 < num" by linarith
    from that l have "sample pool num g1 = Inl ValueError"
      by (simp add: sample_def)
    with u p sh show ?thesis by simp
  qed
  have good: "\<exists>r. mask_context f context_indices n col_idxs g = Inr r"
    if "num \<le> int (length context_indices)"
  proof (cases "0 < num")
    case True
    with that l have "\<exists>r. sample pool num g1 = Inr r"
      by (simp add: sample_def)
    then obtain s g2 where "sample pool num g1 = Inr (s, g2)" by force
    with u True sh show ?thesis by simp
  next
    case False
    with u show ?thesis by simp
  qed
  from bad show "int (length context_indices)
           < min (max_predictions_per_seq (cfg f) - n) (max 1 \<lfloor>double_value y\<rfloor>)
         \<Longrightarrow> mask_context f context_indices n col_idxs g = Inl ValueError"
    unfolding num_def .
  from good show "min (max_predictions_per_seq (cfg f) - n) (max 1 \<lfloor>double_value y\<rfloor>)
           \<le> int (length context_indices)
         \<Longrightarrow> \<exists>r. mask_context f context_indices n col_idxs g = Inr r"
    unfolding num_def .
qed

lemma mask_columns_subset:
  assumes "mask_columns f column_indices g = Inr (n, idxs, mc, g')"
  shows "set idxs \<subseteq> set (concat column_indices)"
proof (cases "table_mask_strategy (cfg f) = ''column_token''")
  case True
  from set_mset_mono [OF mask_columns_column_token(3) [OF True assms]] show ?thesis by simp
next
  case False
  with mask_columns_strategy [OF assms] have "table_mask_strategy (cfg f) = ''column''"
    by simp
  from mask_columns_column [OF this assms] obtain cols where
    c: "set cols \<subseteq> {..< length column_indices}"
      "idxs = concat (map (\<lambda>col. column_indices ! col) cols)"
    by blast
  have "set (column_indices ! a) \<subseteq> set (concat column_indices)" if "a \<in> set cols" for a
  proof -
    from that c(1) have "a < length column_indices" by auto
    then have "column_indices ! a \<in> set column_indices" by simp
    then show ?thesis by auto
  qed
  with c(2) show ?thesis by auto
qed

lemma mask_context_subset:
  assumes "mask_context f context_indices n col_idxs g = Inr (nc, midx, g')"
  shows "set midx \<subseteq> set context_indices \<union> set col_idxs"
proof -
  from mask_context_Inr(2) [OF assms] obtain sel where
    s: "mset sel \<subseteq># mset context_indices"
      "if 0 < nc then int (length sel) = nc \<and> midx = sort (sel @ col_idxs)
       else sel = [] \<and> midx = col_idxs"
    by blast
  from set_mset_mono [OF s(1)] have "set sel \<subseteq> set context_indices" by simp
  with s(2) show ?thesis by (auto split: if_splits)
qed

subsection \<open>Lengths and order of the result\<close>

text \<open>
  The masked sequence is as long as the input, and there is one label per position.
\<close>

lemma create_masked_lm_predictions_lengths:
  assumes "create_masked_lm_predictions f tokens context_indices column_indices g
             = Inr ((masked_tokens, positions, labels, info), g')"
  shows "length masked_tokens = length tokens" and "length positions = length labels"
proof -
  from create_masked_lm_predictions_Inr [OF assms] obtain g2 where
    "mask_loop (vocab_list f) positions tokens [] g2 = Inr (masked_tokens, labels, g')"
    by blast
  from mask_loop_Inr [OF this]
  show "length masked_tokens = length tokens" and "length positions = length labels"
    by simp_all
qed

text \<open>
  The positions are in ascending order on every path but one: the \<^verbatim>\<open>column_token\<close>
  branch sorts its sample, and the merge with the context positions sorts the whole.
\<close>

lemma create_masked_lm_predictions_sorted:
  assumes "create_masked_lm_predictions f tokens context_indices column_indices g
             = Inr ((masked_tokens, positions, labels, info), g')"
    and "table_mask_strategy (cfg f) = ''column_token''
         \<or> 0 < info_num_context_tokens_to_mask info"
  shows "sorted positions"
proof -
  from create_masked_lm_predictions_Inr [OF assms(1)] obtain n idxs mc g1 nc g2 where
    mc: "mask_columns f column_indices g = Inr (n, idxs, mc, g1)"
    and mx: "mask_context f context_indices n idxs g1 = Inr (nc, positions, g2)"
    and i3: "info_num_context_tokens_to_mask info = nc"
    by blast
  from mask_context_Inr(2) [OF mx] obtain sel where
    s: "if 0 < nc then int (length sel) = nc \<and> positions = sort (sel @ idxs)
        else sel = [] \<and> positions = idxs"
    by blast
  show ?thesis
  proof (cases "0 < nc")
    case True
    with s show ?thesis by simp
  next
    case False
    with assms(2) i3 have t: "table_mask_strategy (cfg f) = ''column_token''" by simp
    from mask_columns_column_token(4) [OF t mc] s False show ?thesis by simp
  qed
qed

text \<open>
  C1. The claim: the masked sequence keeps the length of the input, positions and labels
  have equal length, and the positions are strictly ascending, also under the
  \<^verbatim>\<open>column\<close> strategy when context masking is skipped. The lengths are as claimed
  (\<open>create_masked_lm_predictions_lengths\<close>). The order is not: on that path line 223
  returns the concatenation of the shuffled columns as it is. With two columns, both
  masked, a budget of four predictions and a shuffle that puts the second column first,
  the positions come out as \<open>[9, 10, 5, 6]\<close>.
\<close>

theorem column_strategy_positions_unsorted:
  "create_masked_lm_predictions all_columns_formatter two_column_tokens medal_context_candidates
     two_column_candidates zero_tape = Inr (two_column_result, zero_tape) \<and>
   fst (snd two_column_result) = [9, 10, 5, 6] \<and>
   \<not> sorted (fst (snd two_column_result))"
  by (simp add: run_simps all_columns_formatter_def example_defs
      two_column_tokens_def two_column_result_def)

subsection \<open>The float product\<close>

text \<open>
  An integer below \<open>2\<^sup>5\<^sup>3\<close> converts to a float without rounding. The product is rounded:
  25 times the float 0.28 has the ceiling 8, 5 times the float 0.2 the ceiling 1, 50 times
  the float 0.58 the floor 28 and 20 times the float 0.15 the floor 3, as in Python. The
  exact products of the same floats would give 2 for the second and 2 for the fourth.
\<close>

lemma float_of_nat_exact: "n < 2 ^ 53 \<Longrightarrow> float_of_nat n = Inr (Double (int n) 0)"
  by (auto simp: float_of_nat_def round_double_def round_half_even_def bits_over_53_small
      Let_def)

lemma float_product_examples:
  "\<exists>x. nat_times_float 25 (Double 1261007895663739 (- 52)) = Inr x \<and> \<lceil>double_value x\<rceil> = 8"
  "\<exists>x. nat_times_float 5 (Double 3602879701896397 (- 54)) = Inr x \<and> \<lceil>double_value x\<rceil> = 1"
  "\<exists>x. nat_times_float 50 (Double 5224175567749775 (- 53)) = Inr x \<and> \<lfloor>double_value x\<rfloor> = 28"
  "\<exists>x. nat_times_float 20 (Double 5404319552844595 (- 55)) = Inr x \<and> \<lfloor>double_value x\<rfloor> = 3"
  by (simp_all add: float_simps ceiling_eq_iff floor_eq_iff)

lemma exact_product_examples:
  "\<lceil>5 * double_value (Double 3602879701896397 (- 54))\<rceil> = 2"
  "\<lfloor>20 * double_value (Double 5404319552844595 (- 55))\<rfloor> = 2"
  by (simp_all add: ceiling_eq_iff floor_eq_iff)

text \<open>The products of the examples.\<close>

lemma four_columns_product:
  "nat_times_float (length four_column_candidates) (masked_column_prob (cfg medal_formatter))
     = Inr (Double 4 (- 1))"
  by (simp add: float_simps example_defs)

lemma two_column_tokens_product:
  "nat_times_float (length (concat two_column_candidates))
     (masked_column_prob (cfg token_formatter)) = Inr (Double 4 (- 1))"
  by (simp add: float_simps token_formatter_def example_defs)

lemma medal_context_product:
  "nat_times_float (length medal_context_candidates) (masked_context_prob (cfg token_formatter))
     = Inr (Double 8106479329266892 (- 54))"
  by (simp add: float_simps token_formatter_def example_defs)

lemma one_column_product:
  "nat_times_float (length [[2, 3 :: nat]]) (masked_column_prob (cfg tight_budget_formatter))
     = Inr (Double 1 0)"
  by (simp add: float_simps tight_budget_formatter_def example_defs)

lemma empty_context_product:
  "nat_times_float (length ([] :: nat list)) (masked_context_prob (cfg tight_budget_formatter))
     = Inr (Double 0 (- 55))"
  by (simp add: float_simps tight_budget_formatter_def example_defs)

subsection \<open>The column strategy\<close>

text \<open>
  C6. Under the \<^verbatim>\<open>column\<close> strategy every call that returns has chosen
  \<open>max(1, ceil(numColumns * masked_column_prob))\<close> distinct columns, the product \<open>x\<close> being
  the float that line 200 computes; it records that number under \<^verbatim>\<open>num_masked_columns\<close>,
  and masks whole columns: every candidate position of a chosen column is among the
  masked positions, which are exactly the positions of the chosen columns together with a
  selection of context positions. With four columns and a probability of 0.5 the product
  is 2.0 and two columns are chosen.
\<close>

theorem column_strategy_whole_columns:
  assumes "table_mask_strategy (cfg f) = ''column''"
    and "create_masked_lm_predictions f tokens context_indices column_indices g
           = Inr ((masked_tokens, positions, labels, info), g')"
  shows "\<exists>x cols ctx_sel.
           nat_times_float (length column_indices) (masked_column_prob (cfg f)) = Inr x \<and>
           distinct cols \<and> set cols \<subseteq> {..< length column_indices} \<and>
           int (length cols) = max 1 \<lceil>double_value x\<rceil> \<and>
           info_num_masked_columns info = Some (max 1 \<lceil>double_value x\<rceil>) \<and>
           (\<forall>c\<in>set cols. set (column_indices ! c) \<subseteq> set positions) \<and>
           mset ctx_sel \<subseteq># mset context_indices \<and>
           mset positions = mset (concat (map (\<lambda>c. column_indices ! c) cols)) + mset ctx_sel \<and>
           info_num_column_tokens_to_mask info
             = int (length (concat (map (\<lambda>c. column_indices ! c) cols)))"
proof -
  from create_masked_lm_predictions_Inr [OF assms(2)] obtain n idxs mc g1 nc g2 where
    mc: "mask_columns f column_indices g = Inr (n, idxs, mc, g1)"
    and mx: "mask_context f context_indices n idxs g1 = Inr (nc, positions, g2)"
    and i1: "info_num_masked_columns info = mc"
    and i2: "info_num_column_tokens_to_mask info = n"
    by blast
  from mask_columns_column [OF assms(1) mc] obtain x cols where
    px: "nat_times_float (length column_indices) (masked_column_prob (cfg f)) = Inr x"
    and c: "distinct cols" "set cols \<subseteq> {..< length column_indices}"
      "int (length cols) = max 1 \<lceil>double_value x\<rceil>"
      "mc = Some (max 1 \<lceil>double_value x\<rceil>)"
      "idxs = concat (map (\<lambda>col. column_indices ! col) cols)"
      "n = int (length idxs)"
    by blast
  from mask_context_Inr(2) [OF mx] obtain sel where
    s: "mset sel \<subseteq># mset context_indices"
      "if 0 < nc then int (length sel) = nc \<and> positions = sort (sel @ idxs)
       else sel = [] \<and> positions = idxs"
    by blast
  have m: "mset positions = mset idxs + mset sel"
    using s(2) by (auto split: if_splits)
  have "set (column_indices ! c) \<subseteq> set positions" if "c \<in> set cols" for c
  proof -
    from that c(5) have "set (column_indices ! c) \<subseteq> set idxs" by auto
    also have "set idxs \<subseteq> set positions"
      using m by (metis set_mset_mset set_mset_union Un_upper1)
    finally show ?thesis .
  qed
  with px c s(1) m i1 i2 show ?thesis
    by (intro exI [of _ x] exI [of _ cols] exI [of _ sel]) simp
qed

theorem column_strategy_whole_columns_witness:
  "table_mask_strategy (cfg medal_formatter) = ''column'' \<and>
   create_masked_lm_predictions medal_formatter four_column_tokens medal_context_candidates
     four_column_candidates zero_tape = Inr (four_column_result, zero_tape) \<and>
   nat_times_float (length four_column_candidates) (masked_column_prob (cfg medal_formatter))
     = Inr (Double 4 (- 1)) \<and>
   max 1 \<lceil>double_value (Double 4 (- 1))\<rceil> = 2 \<and>
   (\<exists>cols ctx_sel.
      distinct cols \<and> set cols \<subseteq> {..< length four_column_candidates} \<and>
      int (length cols) = 2 \<and>
      info_num_masked_columns (snd (snd (snd four_column_result))) = Some 2 \<and>
      (\<forall>c\<in>set cols. set (four_column_candidates ! c) \<subseteq> set (fst (snd four_column_result))) \<and>
      mset ctx_sel \<subseteq># mset medal_context_candidates \<and>
      mset (fst (snd four_column_result))
        = mset (concat (map (\<lambda>c. four_column_candidates ! c) cols)) + mset ctx_sel \<and>
      info_num_column_tokens_to_mask (snd (snd (snd four_column_result)))
        = int (length (concat (map (\<lambda>c. four_column_candidates ! c) cols))))"
proof -
  have a: "table_mask_strategy (cfg medal_formatter) = ''column''"
    by (simp add: medal_formatter_def medal_config_def)
  have p: "max 1 \<lceil>double_value (Double 4 (- 1))\<rceil> = (2 :: int)"
    by simp
  have b: "create_masked_lm_predictions medal_formatter four_column_tokens
             medal_context_candidates four_column_candidates zero_tape
       = Inr ((fst four_column_result, fst (snd four_column_result),
               fst (snd (snd four_column_result)), snd (snd (snd four_column_result))),
              zero_tape)"
    by (simp add: four_column_run)
  from column_strategy_whole_columns [OF a b] obtain x cols ctx_sel where
    x: "nat_times_float (length four_column_candidates)
          (masked_column_prob (cfg medal_formatter)) = Inr x"
    and r: "distinct cols" "set cols \<subseteq> {..< length four_column_candidates}"
      "int (length cols) = max 1 \<lceil>double_value x\<rceil>"
      "info_num_masked_columns (snd (snd (snd four_column_result)))
         = Some (max 1 \<lceil>double_value x\<rceil>)"
      "\<forall>c\<in>set cols. set (four_column_candidates ! c) \<subseteq> set (fst (snd four_column_result))"
      "mset ctx_sel \<subseteq># mset medal_context_candidates"
      "mset (fst (snd four_column_result))
         = mset (concat (map (\<lambda>c. four_column_candidates ! c) cols)) + mset ctx_sel"
      "info_num_column_tokens_to_mask (snd (snd (snd four_column_result)))
         = int (length (concat (map (\<lambda>c. four_column_candidates ! c) cols)))"
    by blast
  from x four_columns_product have "x = Double 4 (- 1)" by simp
  with r p have
    "distinct cols \<and> set cols \<subseteq> {..< length four_column_candidates} \<and>
      int (length cols) = 2 \<and>
      info_num_masked_columns (snd (snd (snd four_column_result))) = Some 2 \<and>
      (\<forall>c\<in>set cols. set (four_column_candidates ! c) \<subseteq> set (fst (snd four_column_result))) \<and>
      mset ctx_sel \<subseteq># mset medal_context_candidates \<and>
      mset (fst (snd four_column_result))
        = mset (concat (map (\<lambda>c. four_column_candidates ! c) cols)) + mset ctx_sel \<and>
      info_num_column_tokens_to_mask (snd (snd (snd four_column_result)))
        = int (length (concat (map (\<lambda>c. four_column_candidates ! c) cols)))"
    by (simp only: simp_thms)
  then have "\<exists>cols ctx_sel.
      distinct cols \<and> set cols \<subseteq> {..< length four_column_candidates} \<and>
      int (length cols) = 2 \<and>
      info_num_masked_columns (snd (snd (snd four_column_result))) = Some 2 \<and>
      (\<forall>c\<in>set cols. set (four_column_candidates ! c) \<subseteq> set (fst (snd four_column_result))) \<and>
      mset ctx_sel \<subseteq># mset medal_context_candidates \<and>
      mset (fst (snd four_column_result))
        = mset (concat (map (\<lambda>c. four_column_candidates ! c) cols)) + mset ctx_sel \<and>
      info_num_column_tokens_to_mask (snd (snd (snd four_column_result)))
        = int (length (concat (map (\<lambda>c. four_column_candidates ! c) cols)))"
    by blast
  with a four_column_run four_columns_product p show ?thesis
    by (simp only: simp_thms)
qed

subsection \<open>How many positions are masked\<close>

text \<open>
  C7. For every call that returns, the masked positions are a selection \<open>col_sel\<close> of
  column positions and a selection \<open>ctx_sel\<close> of context positions. Under
  \<^verbatim>\<open>column_token\<close> the first has \<open>min(max_predictions_per_seq, max(2, floor(poolSize *
  masked_column_prob)))\<close> elements of the flattened pool. Under either strategy the
  context count is \<open>min(max_predictions_per_seq - len(col_sel), max(1, floor(len(context_indices)
  * masked_context_prob)))\<close>; when it is positive that many context positions are
  selected and merged in, otherwise none is and the column positions are returned
  alone, which happens exactly when the budget \<open>max_predictions_per_seq - len(col_sel)\<close>
  is not positive. The two products are the floats \<open>x\<close> and \<open>y\<close> that lines 195 and 212
  compute.
\<close>

theorem masking_counts:
  assumes "create_masked_lm_predictions f tokens context_indices column_indices g
             = Inr ((masked_tokens, positions, labels, info), g')"
  shows "\<exists>col_sel ctx_sel y.
           nat_times_float (length context_indices) (masked_context_prob (cfg f)) = Inr y \<and>
           mset ctx_sel \<subseteq># mset context_indices \<and>
           int (length col_sel) = info_num_column_tokens_to_mask info \<and>
           (table_mask_strategy (cfg f) = ''column_token'' \<longrightarrow>
              mset col_sel \<subseteq># mset (concat column_indices) \<and>
              (\<exists>x. nat_times_float (length (concat column_indices))
                      (masked_column_prob (cfg f)) = Inr x \<and>
                    int (length col_sel)
                      = min (max_predictions_per_seq (cfg f)) (max 2 \<lfloor>double_value x\<rfloor>))) \<and>
           info_num_context_tokens_to_mask info
             = min (max_predictions_per_seq (cfg f) - int (length col_sel))
                   (max 1 \<lfloor>double_value y\<rfloor>) \<and>
           (if 0 < info_num_context_tokens_to_mask info
            then int (length ctx_sel) = info_num_context_tokens_to_mask info \<and>
                 positions = sort (ctx_sel @ col_sel)
            else ctx_sel = [] \<and> positions = col_sel) \<and>
           (info_num_context_tokens_to_mask info \<le> 0
              \<longleftrightarrow> max_predictions_per_seq (cfg f) - int (length col_sel) \<le> 0)"
proof -
  from create_masked_lm_predictions_Inr [OF assms] obtain n idxs mc g1 nc g2 where
    mc: "mask_columns f column_indices g = Inr (n, idxs, mc, g1)"
    and mx: "mask_context f context_indices n idxs g1 = Inr (nc, positions, g2)"
    and i2: "info_num_column_tokens_to_mask info = n"
    and i3: "info_num_context_tokens_to_mask info = nc"
    by blast
  have len: "int (length idxs) = n"
  proof (cases "table_mask_strategy (cfg f) = ''column_token''")
    case True
    from mask_columns_column_token(2) [OF True mc] show ?thesis .
  next
    case False
    with mask_columns_strategy [OF mc] have "table_mask_strategy (cfg f) = ''column''"
      by simp
    from mask_columns_column [OF this mc] show ?thesis by auto
  qed
  have tok: "mset idxs \<subseteq># mset (concat column_indices) \<and>
             (\<exists>x. nat_times_float (length (concat column_indices))
                     (masked_column_prob (cfg f)) = Inr x \<and>
                   int (length idxs)
                     = min (max_predictions_per_seq (cfg f)) (max 2 \<lfloor>double_value x\<rfloor>))"
    if t: "table_mask_strategy (cfg f) = ''column_token''"
    using mask_columns_column_token(1,3) [OF t mc] len by simp
  from mask_context_Inr(1) [OF mx] obtain y where
    py: "nat_times_float (length context_indices) (masked_context_prob (cfg f)) = Inr y"
    and nc: "nc = min (max_predictions_per_seq (cfg f) - int (length idxs))
                    (max 1 \<lfloor>double_value y\<rfloor>)"
    using len by auto
  from mask_context_Inr(2) [OF mx] obtain sel where
    s: "mset sel \<subseteq># mset context_indices"
      "if 0 < nc then int (length sel) = nc \<and> positions = sort (sel @ idxs)
       else sel = [] \<and> positions = idxs"
    by blast
  have z: "nc \<le> 0 \<longleftrightarrow> max_predictions_per_seq (cfg f) - int (length idxs) \<le> 0"
    unfolding nc by linarith
  from py s tok nc z len i2 i3 show ?thesis
    by (intro exI [of _ idxs] exI [of _ sel] exI [of _ y]) simp
qed

theorem masking_counts_witness:
  "create_masked_lm_predictions token_formatter two_column_tokens medal_context_candidates
     two_column_candidates zero_tape = Inr (token_result, zero_tape) \<and>
   table_mask_strategy (cfg token_formatter) = ''column_token'' \<and>
   0 < info_num_context_tokens_to_mask (snd (snd (snd token_result))) \<and>
   nat_times_float (length (concat two_column_candidates))
     (masked_column_prob (cfg token_formatter)) = Inr (Double 4 (- 1)) \<and>
   nat_times_float (length medal_context_candidates) (masked_context_prob (cfg token_formatter))
     = Inr (Double 8106479329266892 (- 54)) \<and>
   (\<exists>col_sel ctx_sel.
      mset ctx_sel \<subseteq># mset medal_context_candidates \<and>
      mset col_sel \<subseteq># mset (concat two_column_candidates) \<and>
      int (length col_sel)
        = min (max_predictions_per_seq (cfg token_formatter))
              (max 2 \<lfloor>double_value (Double 4 (- 1))\<rfloor>) \<and>
      length col_sel = 2 \<and>
      int (length ctx_sel)
        = min (max_predictions_per_seq (cfg token_formatter) - int (length col_sel))
              (max 1 \<lfloor>double_value (Double 8106479329266892 (- 54))\<rfloor>) \<and>
      length ctx_sel = 1 \<and>
      fst (snd token_result) = sort (ctx_sel @ col_sel))"
proof -
  have a: "table_mask_strategy (cfg token_formatter) = ''column_token''"
    by (simp add: token_formatter_def example_defs)
  have p: "0 < info_num_context_tokens_to_mask (snd (snd (snd token_result)))"
    by (simp add: token_result_def)
  have b: "create_masked_lm_predictions token_formatter two_column_tokens
             medal_context_candidates two_column_candidates zero_tape
       = Inr ((fst token_result, fst (snd token_result),
               fst (snd (snd token_result)), snd (snd (snd token_result))),
              zero_tape)"
    by (simp add: token_run)
  from masking_counts [OF b] a p obtain col_sel ctx_sel x y where
    y: "nat_times_float (length medal_context_candidates)
          (masked_context_prob (cfg token_formatter)) = Inr y"
    and x: "nat_times_float (length (concat two_column_candidates))
          (masked_column_prob (cfg token_formatter)) = Inr x"
    and r: "mset ctx_sel \<subseteq># mset medal_context_candidates"
      "mset col_sel \<subseteq># mset (concat two_column_candidates)"
      "int (length col_sel)
         = min (max_predictions_per_seq (cfg token_formatter)) (max 2 \<lfloor>double_value x\<rfloor>)"
      "int (length ctx_sel)
         = min (max_predictions_per_seq (cfg token_formatter) - int (length col_sel))
               (max 1 \<lfloor>double_value y\<rfloor>)"
      "fst (snd token_result) = sort (ctx_sel @ col_sel)"
    by (auto simp only: if_True simp_thms)
  from x two_column_tokens_product have xe: "x = Double 4 (- 1)" by simp
  from y medal_context_product have ye: "y = Double 8106479329266892 (- 54)" by simp
  have m: "max_predictions_per_seq (cfg token_formatter) = 200"
    by (simp add: token_formatter_def example_defs)
  have fx: "\<lfloor>double_value (Double 4 (- 1))\<rfloor> = 2"
    by simp
  have fy: "\<lfloor>double_value (Double 8106479329266892 (- 54))\<rfloor> = 0"
    by (simp add: floor_eq_iff)
  from r(3) xe m fx have l2: "length col_sel = 2" by simp
  from r(4) ye m fy l2 have l1: "length ctx_sel = 1" by simp
  from r xe ye l1 l2 have
    "mset ctx_sel \<subseteq># mset medal_context_candidates \<and>
      mset col_sel \<subseteq># mset (concat two_column_candidates) \<and>
      int (length col_sel)
        = min (max_predictions_per_seq (cfg token_formatter))
              (max 2 \<lfloor>double_value (Double 4 (- 1))\<rfloor>) \<and>
      length col_sel = 2 \<and>
      int (length ctx_sel)
        = min (max_predictions_per_seq (cfg token_formatter) - int (length col_sel))
              (max 1 \<lfloor>double_value (Double 8106479329266892 (- 54))\<rfloor>) \<and>
      length ctx_sel = 1 \<and>
      fst (snd token_result) = sort (ctx_sel @ col_sel)"
    by (simp only: simp_thms)
  then have "\<exists>col_sel ctx_sel.
      mset ctx_sel \<subseteq># mset medal_context_candidates \<and>
      mset col_sel \<subseteq># mset (concat two_column_candidates) \<and>
      int (length col_sel)
        = min (max_predictions_per_seq (cfg token_formatter))
              (max 2 \<lfloor>double_value (Double 4 (- 1))\<rfloor>) \<and>
      length col_sel = 2 \<and>
      int (length ctx_sel)
        = min (max_predictions_per_seq (cfg token_formatter) - int (length col_sel))
              (max 1 \<lfloor>double_value (Double 8106479329266892 (- 54))\<rfloor>) \<and>
      length ctx_sel = 1 \<and>
      fst (snd token_result) = sort (ctx_sel @ col_sel)"
    by blast
  with a p token_run two_column_tokens_product medal_context_product show ?thesis
    by (simp only: simp_thms)
qed

subsection \<open>Errors of the mask generator\<close>

lemma choice_error: "choice xs g = Inl e \<Longrightarrow> e = IndexError"
  by (simp add: choice_def split: if_splits prod.splits)

lemma mask_loop_error:
  "mask_loop vocab idxs tokens labels g = Inl e \<Longrightarrow> e = IndexError"
proof (induction idxs arbitrary: tokens labels g)
  case Nil
  then show ?case by simp
next
  case (Cons index rest)
  then show ?case
    by (auto dest: choice_error split: prod.splits sum.splits if_splits)
qed

text \<open>
  Once the column step has chosen \<open>n\<close> tokens, the rest of the call is decided by the
  count that line 212 requests from the context pool.
\<close>

lemma create_masked_lm_predictions_after_columns:
  assumes mc: "mask_columns f column_indices g = Inr (n, idxs, mcol, g1)"
  shows "case nat_times_float (length context_indices) (masked_context_prob (cfg f)) of
           Inl e \<Rightarrow>
             create_masked_lm_predictions f tokens context_indices column_indices g
               = Inl OverflowError
         | Inr y \<Rightarrow>
             if int (length context_indices)
                  < min (max_predictions_per_seq (cfg f) - n) (max 1 \<lfloor>double_value y\<rfloor>)
             then create_masked_lm_predictions f tokens context_indices column_indices g
                    = Inl ValueError
             else ((\<exists>r. create_masked_lm_predictions f tokens context_indices column_indices g
                          = Inr r) \<or>
                   create_masked_lm_predictions f tokens context_indices column_indices g
                     = Inl IndexError) \<and>
                  ((\<forall>i \<in> set context_indices \<union> set (concat column_indices). i < length tokens) \<and>
                   vocab_list f \<noteq> []
                   \<longrightarrow> (\<exists>r. create_masked_lm_predictions f tokens context_indices
                               column_indices g = Inr r))"
proof (cases "nat_times_float (length context_indices) (masked_context_prob (cfg f))")
  case (Inl e)
  from nat_times_float_error [OF Inl] Inl
  have "mask_context f context_indices n idxs g1 = Inl OverflowError"
    by (simp add: mask_context_def)
  with mc have "create_masked_lm_predictions f tokens context_indices column_indices g
                  = Inl OverflowError"
    by (simp add: create_masked_lm_predictions_def)
  then show ?thesis
    unfolding Inl sum.case .
next
  case (Inr y)
  show ?thesis
  proof (cases "int (length context_indices)
                  < min (max_predictions_per_seq (cfg f) - n) (max 1 \<lfloor>double_value y\<rfloor>)")
    case True
    from mask_context_fits(1) [OF Inr True]
    have "mask_context f context_indices n idxs g1 = Inl ValueError" .
    with mc have "create_masked_lm_predictions f tokens context_indices column_indices g
                    = Inl ValueError"
      by (simp add: create_masked_lm_predictions_def)
    then show ?thesis
      unfolding Inr sum.case if_P [OF True] .
  next
    case False
    then have "min (max_predictions_per_seq (cfg f) - n) (max 1 \<lfloor>double_value y\<rfloor>)
                 \<le> int (length context_indices)"
      by (simp only: not_less)
    from mask_context_fits(2) [OF Inr this, of idxs g1] obtain nc midx g2 where
      mx: "mask_context f context_indices n idxs g1 = Inr (nc, midx, g2)"
      by (metis prod_cases3)
    have sub: "set midx \<subseteq> set context_indices \<union> set (concat column_indices)"
      using mask_columns_subset [OF mc] mask_context_subset [OF mx] by blast
    have a: "(\<exists>r. create_masked_lm_predictions f tokens context_indices column_indices g
                     = Inr r) \<or>
             create_masked_lm_predictions f tokens context_indices column_indices g
               = Inl IndexError"
    proof (cases "mask_loop (vocab_list f) midx tokens [] g2")
      case (Inl e)
      from mask_loop_error [OF Inl] Inl mc mx show ?thesis
        by (simp add: create_masked_lm_predictions_def)
    next
      case (Inr r)
      with mc mx show ?thesis
        by (simp add: create_masked_lm_predictions_def split: prod.splits)
    qed
    have b: "(\<forall>i \<in> set context_indices \<union> set (concat column_indices). i < length tokens) \<and>
             vocab_list f \<noteq> []
             \<longrightarrow> (\<exists>r. create_masked_lm_predictions f tokens context_indices column_indices g
                         = Inr r)"
    proof
      assume h: "(\<forall>i \<in> set context_indices \<union> set (concat column_indices). i < length tokens) \<and>
             vocab_list f \<noteq> []"
      from h sub have "\<forall>i\<in>set midx. i < length tokens" by blast
      from mask_loop_ok [OF this, of "vocab_list f" "[]" g2] h obtain t l g3 where
        "mask_loop (vocab_list f) midx tokens [] g2 = Inr (t, l, g3)"
        by (metis prod_cases3)
      with mc mx show "\<exists>r. create_masked_lm_predictions f tokens context_indices
                              column_indices g = Inr r"
        by (simp add: create_masked_lm_predictions_def)
    qed
    from a b show ?thesis
      unfolding Inr sum.case if_not_P [OF False] by (rule conjI)
  qed
qed

lemma column_token_outcome:
  assumes t: "table_mask_strategy (cfg f) = ''column_token''"
  shows "case nat_times_float (length (concat column_indices)) (masked_column_prob (cfg f)) of
       Inl e \<Rightarrow>
         create_masked_lm_predictions f tokens context_indices column_indices g
           = Inl OverflowError
     | Inr x \<Rightarrow>
         if min (max_predictions_per_seq (cfg f)) (max 2 \<lfloor>double_value x\<rfloor>) < 0 \<or>
            int (length (concat column_indices))
              < min (max_predictions_per_seq (cfg f)) (max 2 \<lfloor>double_value x\<rfloor>)
         then create_masked_lm_predictions f tokens context_indices column_indices g
                = Inl ValueError
         else (case nat_times_float (length context_indices) (masked_context_prob (cfg f)) of
                 Inl e \<Rightarrow>
                   create_masked_lm_predictions f tokens context_indices column_indices g
                     = Inl OverflowError
               | Inr y \<Rightarrow>
                   if int (length context_indices)
                        < min (max_predictions_per_seq (cfg f)
                                 - min (max_predictions_per_seq (cfg f))
                                       (max 2 \<lfloor>double_value x\<rfloor>))
                              (max 1 \<lfloor>double_value y\<rfloor>)
                   then create_masked_lm_predictions f tokens context_indices column_indices g
                          = Inl ValueError
                   else ((\<exists>r. create_masked_lm_predictions f tokens context_indices
                                column_indices g = Inr r) \<or>
                         create_masked_lm_predictions f tokens context_indices column_indices g
                           = Inl IndexError) \<and>
                        ((\<forall>i \<in> set context_indices \<union> set (concat column_indices).
                            i < length tokens) \<and>
                         vocab_list f \<noteq> []
                         \<longrightarrow> (\<exists>r. create_masked_lm_predictions f tokens context_indices
                                     column_indices g = Inr r)))"
proof (cases "nat_times_float (length (concat column_indices)) (masked_column_prob (cfg f))")
  case (Inl e)
  from nat_times_float_error [OF Inl] Inl t
  have "mask_columns f column_indices g = Inl OverflowError"
    by (simp add: mask_columns_def)
  then have "create_masked_lm_predictions f tokens context_indices column_indices g
               = Inl OverflowError"
    by (simp add: create_masked_lm_predictions_def)
  then show ?thesis
    unfolding Inl sum.case .
next
  case (Inr x)
  let ?want = "min (max_predictions_per_seq (cfg f)) (max 2 \<lfloor>double_value x\<rfloor>)"
  show ?thesis
  proof (cases "?want < 0 \<or> int (length (concat column_indices)) < ?want")
    case True
    from mask_columns_token_fits(1) [OF t Inr True, of g]
    have "create_masked_lm_predictions f tokens context_indices column_indices g
            = Inl ValueError"
      by (simp add: create_masked_lm_predictions_def)
    then show ?thesis
      unfolding Inr sum.case if_P [OF True] .
  next
    case False
    then have w: "0 \<le> ?want" "?want \<le> int (length (concat column_indices))"
      using not_less by blast+
    from mask_columns_token_fits(2) [OF t Inr w, of g]
    obtain s g2 where mc: "mask_columns f column_indices g = Inr (?want, s, None, g2)"
      by blast
    show ?thesis
      unfolding Inr sum.case if_not_P [OF False]
      by (rule create_masked_lm_predictions_after_columns [OF mc])
  qed
qed

lemma column_outcome:
  assumes t: "table_mask_strategy (cfg f) = ''column''"
  shows "case nat_times_float (length column_indices) (masked_column_prob (cfg f)) of
       Inl e \<Rightarrow>
         create_masked_lm_predictions f tokens context_indices column_indices g
           = Inl OverflowError
     | Inr x \<Rightarrow>
         if int (length column_indices) < max 1 \<lceil>double_value x\<rceil>
         then create_masked_lm_predictions f tokens context_indices column_indices g
                = Inl ValueError
         else (\<exists>cols.
                 distinct cols \<and> set cols \<subseteq> {..< length column_indices} \<and>
                 int (length cols) = max 1 \<lceil>double_value x\<rceil> \<and>
                 (case nat_times_float (length context_indices) (masked_context_prob (cfg f)) of
                    Inl e \<Rightarrow>
                      create_masked_lm_predictions f tokens context_indices column_indices g
                        = Inl OverflowError
                  | Inr y \<Rightarrow>
                      if int (length context_indices)
                           < min (max_predictions_per_seq (cfg f)
                                    - int (length (concat (map (\<lambda>c. column_indices ! c) cols))))
                                 (max 1 \<lfloor>double_value y\<rfloor>)
                      then create_masked_lm_predictions f tokens context_indices
                             column_indices g = Inl ValueError
                      else ((\<exists>r. create_masked_lm_predictions f tokens context_indices
                                   column_indices g = Inr r) \<or>
                            create_masked_lm_predictions f tokens context_indices
                              column_indices g = Inl IndexError) \<and>
                           ((\<forall>i \<in> set context_indices \<union> set (concat column_indices).
                               i < length tokens) \<and>
                            vocab_list f \<noteq> []
                            \<longrightarrow> (\<exists>r. create_masked_lm_predictions f tokens context_indices
                                        column_indices g = Inr r))))"
proof (cases "nat_times_float (length column_indices) (masked_column_prob (cfg f))")
  case (Inl e)
  from nat_times_float_error [OF Inl] Inl t
  have "mask_columns f column_indices g = Inl OverflowError"
    by (simp add: mask_columns_def)
  then have "create_masked_lm_predictions f tokens context_indices column_indices g
               = Inl OverflowError"
    by (simp add: create_masked_lm_predictions_def)
  then show ?thesis
    unfolding Inl sum.case .
next
  case (Inr x)
  show ?thesis
  proof (cases "int (length column_indices) < max 1 \<lceil>double_value x\<rceil>")
    case True
    from mask_columns_column_fits(1) [OF t Inr True, of g]
    have "create_masked_lm_predictions f tokens context_indices column_indices g
            = Inl ValueError"
      by (simp add: create_masked_lm_predictions_def)
    then show ?thesis
      unfolding Inr sum.case if_P [OF True] .
  next
    case False
    then have "max 1 \<lceil>double_value x\<rceil> \<le> int (length column_indices)"
      by (simp only: not_less)
    from mask_columns_column_fits(2) [OF t Inr this, of g] obtain n idxs mcol g1 where
      mc: "mask_columns f column_indices g = Inr (n, idxs, mcol, g1)"
      by (metis prod_cases4)
    from mask_columns_column [OF t mc] Inr obtain cols where
      c: "distinct cols" "set cols \<subseteq> {..< length column_indices}"
        "int (length cols) = max 1 \<lceil>double_value x\<rceil>"
      and n: "n = int (length (concat (map (\<lambda>c. column_indices ! c) cols)))"
      by auto
    note r = create_masked_lm_predictions_after_columns
      [OF mc [unfolded n], of tokens context_indices]
    show ?thesis
      unfolding Inr sum.case if_not_P [OF False]
      by (rule exI [of _ cols]) (intro conjI c r)
  qed
qed

text \<open>
  C8, as stated: \<^verbatim>\<open>create_masked_lm_predictions\<close> fails exactly when the strategy is
  neither \<^verbatim>\<open>column_token\<close> nor \<^verbatim>\<open>column\<close>. It also fails under a valid strategy: with
  an empty context pool and a budget that is not used up, line 212 asks for one context
  position, and \<^verbatim>\<open>sample\<close> raises \<^verbatim>\<open>ValueError\<close>.
\<close>

theorem valid_strategy_still_fails:
  "table_mask_strategy (cfg token_formatter) = ''column_token'' \<and>
   create_masked_lm_predictions token_formatter empty_context_tokens [] [[2, 3]] zero_tape
     = Inl ValueError"
  by (simp add: run_simps token_formatter_def example_defs empty_context_tokens_def)

text \<open>
  C8, amended: the call ends in the \<^verbatim>\<open>RuntimeError\<close> of line 208 exactly when the strategy
  is neither \<^verbatim>\<open>column_token\<close> nor \<^verbatim>\<open>column\<close>. Under a valid strategy the counts requested
  from \<^verbatim>\<open>sample\<close> decide. Under \<^verbatim>\<open>column_token\<close> the call raises \<^verbatim>\<open>ValueError\<close> if
  \<open>min(max_predictions_per_seq, max(2, floor(poolSize * masked_column_prob)))\<close> is negative
  or more than the flattened pool holds; under \<^verbatim>\<open>column\<close> it raises \<^verbatim>\<open>ValueError\<close> if
  \<open>max(1, ceil(numColumns * masked_column_prob))\<close> is more than the number of columns.
  Otherwise the column step selects \<open>n\<close> positions (that count under \<^verbatim>\<open>column_token\<close>, the
  candidate positions of the chosen columns under \<^verbatim>\<open>column\<close>), and the call raises
  \<^verbatim>\<open>ValueError\<close> if \<open>min(max_predictions_per_seq - n, max(1, floor(len(context_indices) *
  masked_context_prob)))\<close> is more than the number of context positions; so an empty
  context pool raises unless the budget \<open>max_predictions_per_seq - n\<close> is used up.
  Otherwise the call returns or ends in an \<^verbatim>\<open>IndexError\<close> of the substitution loop, and it
  returns if every candidate position is a position of the token sequence and the
  vocabulary is not empty. A product too large for a float ends the call in
  \<^verbatim>\<open>OverflowError\<close>. The products are the floats that lines 195, 200 and 212 compute.
\<close>

theorem strategy_error_and_completion:
  "(create_masked_lm_predictions f tokens context_indices column_indices g = Inl RuntimeError
      \<longleftrightarrow> table_mask_strategy (cfg f) \<noteq> ''column_token'' \<and>
          table_mask_strategy (cfg f) \<noteq> ''column'') \<and>
   (table_mask_strategy (cfg f) = ''column_token'' \<longrightarrow>
     (case nat_times_float (length (concat column_indices)) (masked_column_prob (cfg f)) of
       Inl e \<Rightarrow>
         create_masked_lm_predictions f tokens context_indices column_indices g
           = Inl OverflowError
     | Inr x \<Rightarrow>
         if min (max_predictions_per_seq (cfg f)) (max 2 \<lfloor>double_value x\<rfloor>) < 0 \<or>
            int (length (concat column_indices))
              < min (max_predictions_per_seq (cfg f)) (max 2 \<lfloor>double_value x\<rfloor>)
         then create_masked_lm_predictions f tokens context_indices column_indices g
                = Inl ValueError
         else (case nat_times_float (length context_indices) (masked_context_prob (cfg f)) of
                 Inl e \<Rightarrow>
                   create_masked_lm_predictions f tokens context_indices column_indices g
                     = Inl OverflowError
               | Inr y \<Rightarrow>
                   if int (length context_indices)
                        < min (max_predictions_per_seq (cfg f)
                                 - min (max_predictions_per_seq (cfg f))
                                       (max 2 \<lfloor>double_value x\<rfloor>))
                              (max 1 \<lfloor>double_value y\<rfloor>)
                   then create_masked_lm_predictions f tokens context_indices column_indices g
                          = Inl ValueError
                   else ((\<exists>r. create_masked_lm_predictions f tokens context_indices
                                column_indices g = Inr r) \<or>
                         create_masked_lm_predictions f tokens context_indices column_indices g
                           = Inl IndexError) \<and>
                        ((\<forall>i \<in> set context_indices \<union> set (concat column_indices).
                            i < length tokens) \<and>
                         vocab_list f \<noteq> []
                         \<longrightarrow> (\<exists>r. create_masked_lm_predictions f tokens context_indices
                                     column_indices g = Inr r))))) \<and>
   (table_mask_strategy (cfg f) = ''column'' \<longrightarrow>
     (case nat_times_float (length column_indices) (masked_column_prob (cfg f)) of
       Inl e \<Rightarrow>
         create_masked_lm_predictions f tokens context_indices column_indices g
           = Inl OverflowError
     | Inr x \<Rightarrow>
         if int (length column_indices) < max 1 \<lceil>double_value x\<rceil>
         then create_masked_lm_predictions f tokens context_indices column_indices g
                = Inl ValueError
         else (\<exists>cols.
                 distinct cols \<and> set cols \<subseteq> {..< length column_indices} \<and>
                 int (length cols) = max 1 \<lceil>double_value x\<rceil> \<and>
                 (case nat_times_float (length context_indices) (masked_context_prob (cfg f)) of
                    Inl e \<Rightarrow>
                      create_masked_lm_predictions f tokens context_indices column_indices g
                        = Inl OverflowError
                  | Inr y \<Rightarrow>
                      if int (length context_indices)
                           < min (max_predictions_per_seq (cfg f)
                                    - int (length (concat (map (\<lambda>c. column_indices ! c) cols))))
                                 (max 1 \<lfloor>double_value y\<rfloor>)
                      then create_masked_lm_predictions f tokens context_indices
                             column_indices g = Inl ValueError
                      else ((\<exists>r. create_masked_lm_predictions f tokens context_indices
                                   column_indices g = Inr r) \<or>
                            create_masked_lm_predictions f tokens context_indices
                              column_indices g = Inl IndexError) \<and>
                           ((\<forall>i \<in> set context_indices \<union> set (concat column_indices).
                               i < length tokens) \<and>
                            vocab_list f \<noteq> []
                            \<longrightarrow> (\<exists>r. create_masked_lm_predictions f tokens context_indices
                                        column_indices g = Inr r))))))"
proof (intro conjI impI)
  show "create_masked_lm_predictions f tokens context_indices column_indices g = Inl RuntimeError
      \<longleftrightarrow> table_mask_strategy (cfg f) \<noteq> ''column_token'' \<and>
          table_mask_strategy (cfg f) \<noteq> ''column''"
    by (rule create_masked_lm_predictions_error)
next
  assume "table_mask_strategy (cfg f) = ''column_token''"
  then show "case nat_times_float (length (concat column_indices))
                    (masked_column_prob (cfg f)) of
       Inl e \<Rightarrow>
         create_masked_lm_predictions f tokens context_indices column_indices g
           = Inl OverflowError
     | Inr x \<Rightarrow>
         if min (max_predictions_per_seq (cfg f)) (max 2 \<lfloor>double_value x\<rfloor>) < 0 \<or>
            int (length (concat column_indices))
              < min (max_predictions_per_seq (cfg f)) (max 2 \<lfloor>double_value x\<rfloor>)
         then create_masked_lm_predictions f tokens context_indices column_indices g
                = Inl ValueError
         else (case nat_times_float (length context_indices) (masked_context_prob (cfg f)) of
                 Inl e \<Rightarrow>
                   create_masked_lm_predictions f tokens context_indices column_indices g
                     = Inl OverflowError
               | Inr y \<Rightarrow>
                   if int (length context_indices)
                        < min (max_predictions_per_seq (cfg f)
                                 - min (max_predictions_per_seq (cfg f))
                                       (max 2 \<lfloor>double_value x\<rfloor>))
                              (max 1 \<lfloor>double_value y\<rfloor>)
                   then create_masked_lm_predictions f tokens context_indices column_indices g
                          = Inl ValueError
                   else ((\<exists>r. create_masked_lm_predictions f tokens context_indices
                                column_indices g = Inr r) \<or>
                         create_masked_lm_predictions f tokens context_indices column_indices g
                           = Inl IndexError) \<and>
                        ((\<forall>i \<in> set context_indices \<union> set (concat column_indices).
                            i < length tokens) \<and>
                         vocab_list f \<noteq> []
                         \<longrightarrow> (\<exists>r. create_masked_lm_predictions f tokens context_indices
                                     column_indices g = Inr r)))"
    by (rule column_token_outcome)
next
  assume "table_mask_strategy (cfg f) = ''column''"
  then show "case nat_times_float (length column_indices) (masked_column_prob (cfg f)) of
       Inl e \<Rightarrow>
         create_masked_lm_predictions f tokens context_indices column_indices g
           = Inl OverflowError
     | Inr x \<Rightarrow>
         if int (length column_indices) < max 1 \<lceil>double_value x\<rceil>
         then create_masked_lm_predictions f tokens context_indices column_indices g
                = Inl ValueError
         else (\<exists>cols.
                 distinct cols \<and> set cols \<subseteq> {..< length column_indices} \<and>
                 int (length cols) = max 1 \<lceil>double_value x\<rceil> \<and>
                 (case nat_times_float (length context_indices) (masked_context_prob (cfg f)) of
                    Inl e \<Rightarrow>
                      create_masked_lm_predictions f tokens context_indices column_indices g
                        = Inl OverflowError
                  | Inr y \<Rightarrow>
                      if int (length context_indices)
                           < min (max_predictions_per_seq (cfg f)
                                    - int (length (concat (map (\<lambda>c. column_indices ! c) cols))))
                                 (max 1 \<lfloor>double_value y\<rfloor>)
                      then create_masked_lm_predictions f tokens context_indices
                             column_indices g = Inl ValueError
                      else ((\<exists>r. create_masked_lm_predictions f tokens context_indices
                                   column_indices g = Inr r) \<or>
                            create_masked_lm_predictions f tokens context_indices
                              column_indices g = Inl IndexError) \<and>
                           ((\<forall>i \<in> set context_indices \<union> set (concat column_indices).
                               i < length tokens) \<and>
                            vocab_list f \<noteq> []
                            \<longrightarrow> (\<exists>r. create_masked_lm_predictions f tokens context_indices
                                        column_indices g = Inr r))))"
    by (rule column_outcome)
qed


theorem strategy_error_and_completion_witness:
  "table_mask_strategy (cfg tight_budget_formatter) = ''column'' \<and>
   nat_times_float (length [[2, 3 :: nat]]) (masked_column_prob (cfg tight_budget_formatter))
     = Inr (Double 1 0) \<and>
   nat_times_float (length ([] :: nat list)) (masked_context_prob (cfg tight_budget_formatter))
     = Inr (Double 0 (- 55)) \<and>
   max_predictions_per_seq (cfg tight_budget_formatter) = 2 \<and>
   set (concat [[2, 3]]) \<subseteq> {..< length empty_context_tokens} \<and>
   vocab_list tight_budget_formatter \<noteq> [] \<and>
   (\<exists>r. create_masked_lm_predictions tight_budget_formatter empty_context_tokens [] [[2, 3]]
           zero_tape = Inr r) \<and>
   table_mask_strategy (cfg token_formatter) = ''column_token'' \<and>
   create_masked_lm_predictions token_formatter empty_context_tokens [] [[2, 3]] first_half_tape
     = Inl ValueError"
proof -
  have a: "table_mask_strategy (cfg tight_budget_formatter) = ''column''"
    and m: "max_predictions_per_seq (cfg tight_budget_formatter) = 2"
    and v: "vocab_list tight_budget_formatter \<noteq> []"
    by (simp_all add: tight_budget_formatter_def example_defs)
  have s: "set (concat [[2, 3]]) \<subseteq> {..< length empty_context_tokens}"
    by (simp add: empty_context_tokens_def)
  have fits: "\<not> int (length [[2, 3 :: nat]]) < max 1 \<lceil>double_value (Double 1 0)\<rceil>"
    by simp
  note col = strategy_error_and_completion
    [of tight_budget_formatter empty_context_tokens "[]" "[[2, 3]]" zero_tape,
     THEN conjunct2, THEN conjunct2, THEN mp, OF a,
     unfolded one_column_product empty_context_product sum.case if_not_P [OF fits]]
  then obtain cols where
    c: "distinct cols" "set cols \<subseteq> {..< length [[2, 3 :: nat]]}"
      "int (length cols) = max 1 \<lceil>double_value (Double 1 0)\<rceil>"
    and r: "if int (length ([] :: nat list))
                 < min (max_predictions_per_seq (cfg tight_budget_formatter)
                          - int (length (concat (map (\<lambda>c. [[2, 3 :: nat]] ! c) cols))))
                       (max 1 \<lfloor>double_value (Double 0 (- 55))\<rfloor>)
            then create_masked_lm_predictions tight_budget_formatter empty_context_tokens
                   [] [[2, 3]] zero_tape = Inl ValueError
            else ((\<exists>r. create_masked_lm_predictions tight_budget_formatter
                         empty_context_tokens [] [[2, 3]] zero_tape = Inr r) \<or>
                  create_masked_lm_predictions tight_budget_formatter empty_context_tokens
                    [] [[2, 3]] zero_tape = Inl IndexError) \<and>
                 ((\<forall>i \<in> set [] \<union> set (concat [[2, 3 :: nat]]). i < length empty_context_tokens) \<and>
                  vocab_list tight_budget_formatter \<noteq> []
                  \<longrightarrow> (\<exists>r. create_masked_lm_predictions tight_budget_formatter
                              empty_context_tokens [] [[2, 3]] zero_tape = Inr r))"
    by blast
  from c(3) have "length cols = 1" by simp
  then obtain k where "cols = [k]"
    by (cases cols) simp_all
  with c(2) have cols: "cols = [0]" by simp
  from r m s v have ret:
    "\<exists>r. create_masked_lm_predictions tight_budget_formatter empty_context_tokens [] [[2, 3]]
            zero_tape = Inr r"
    unfolding cols by (simp add: empty_context_tokens_def)
  have b: "table_mask_strategy (cfg token_formatter) = ''column_token''"
    by (simp add: token_formatter_def example_defs)
  have px: "nat_times_float (length (concat [[2, 3 :: nat]]))
              (masked_column_prob (cfg token_formatter)) = Inr (Double 2 (- 1))"
    and py: "nat_times_float (length ([] :: nat list))
              (masked_context_prob (cfg token_formatter)) = Inr (Double 0 (- 55))"
    by (simp_all add: float_simps token_formatter_def example_defs)
  have want: "min (max_predictions_per_seq (cfg token_formatter))
                (max 2 \<lfloor>double_value (Double 2 (- 1))\<rfloor>) = 2"
    by (simp add: token_formatter_def example_defs)
  have ok: "\<not> (2 < (0 :: int) \<or> int (length (concat [[2, 3 :: nat]])) < 2)"
    by simp
  have short: "int (length ([] :: nat list))
                 < min (max_predictions_per_seq (cfg token_formatter) - 2)
                       (max 1 \<lfloor>double_value (Double 0 (- 55))\<rfloor>)"
    by (simp add: token_formatter_def example_defs)
  note tok = strategy_error_and_completion
    [of token_formatter empty_context_tokens "[]" "[[2, 3]]" first_half_tape,
     THEN conjunct2, THEN conjunct1, THEN mp, OF b,
     unfolded px py sum.case want if_not_P [OF ok] if_P [OF short]]
  from a one_column_product empty_context_product m s v ret b tok show ?thesis
    by (simp only: simp_thms)
qed

section \<open>Candidate positions\<close>

subsection \<open>The context pool\<close>

lemma map_nth_slice:
  "map ((!) (pre @ xs @ post)) [length pre ..< length pre + length xs] = xs"
  by (rule nth_equalityI) (simp_all add: nth_append)

text \<open>
  What the pool holds in general. With the context first it is the positions of the
  context tokens alone: line 95 lists \<^verbatim>\<open>[CLS]\<close> and the context, and line 160 drops
  \<^verbatim>\<open>[CLS]\<close>. With the table first line 99 lists the \<^verbatim>\<open>[SEP]\<close> that closes the table, the
  context and the final \<^verbatim>\<open>[SEP]\<close>, and line 162 drops the last of them only.
\<close>

lemma context_candidate_indices_tokens:
  assumes "get_input f context header = Inr inst"
  shows "\<exists>row.
           in_tokens inst =
             (if context_first (cfg f)
              then [''[CLS]''] @ context @ [''[SEP]''] @ row @ [''[SEP]'']
              else [''[CLS]''] @ row @ [''[SEP]''] @ context @ [''[SEP]'']) \<and>
           context_candidate_indices f inst =
             (if context_first (cfg f) then [1 ..< 1 + length context]
              else [length row + 1 ..< length row + 1 + (1 + length context)]) \<and>
           map ((!) (in_tokens inst)) (context_candidate_indices f inst) =
             (if context_first (cfg f) then context else ''[SEP]'' # context)"
proof -
  from get_input_shape [OF assms] obtain row where
    tok: "in_tokens inst =
             (if context_first (cfg f)
              then (''[CLS]'' # context @ [''[SEP]'']) @ (row @ [''[SEP]''])
              else (''[CLS]'' # row @ [''[SEP]'']) @ (context @ [''[SEP]'']))"
    and idx: "in_context_token_indices inst =
             (if context_first (cfg f) then [0 ..< 1 + length context]
              else [length row + 1 ..< length row + length context + 3])"
    by blast
  show ?thesis
  proof (cases "context_first (cfg f)")
    case True
    have c: "context_candidate_indices f inst = [1 ..< 1 + length context]"
      using True idx by (simp add: context_candidate_indices_def drop_upt)
    have "map ((!) ([''[CLS]''] @ context @ ([''[SEP]''] @ row @ [''[SEP]'']))) 
            [length [''[CLS]''] ..< length [''[CLS]''] + length context] = context"
      by (rule map_nth_slice)
    with True tok c show ?thesis by (intro exI [of _ row]) simp
  next
    case False
    have c: "context_candidate_indices f inst
               = [length row + 1 ..< length row + 1 + (1 + length context)]"
      using False idx by (simp add: context_candidate_indices_def butlast_conv_take numeral_3_eq_3)
    have "map ((!) ((''[CLS]'' # row) @ (''[SEP]'' # context) @ [''[SEP]'']))
            [length (''[CLS]'' # row) ..< length (''[CLS]'' # row) + length (''[SEP]'' # context)]
          = ''[SEP]'' # context"
      by (rule map_nth_slice)
    with False tok c show ?thesis by (intro exI [of _ row]) simp
  qed
qed

text \<open>
  C4. The claim: in both orders the context pool leaves out the boundary token next to
  the table. With the context first it does, and \<^verbatim>\<open>[CLS]\<close> as well: for the question
  ``how many medals'' the pool is \<open>[1, 2, 3]\<close>. With the table first it does not: the pool
  \<open>[4, 5, 6, 7]\<close> starts at position 4, the \<^verbatim>\<open>[SEP]\<close> that closes the table, and only the
  last \<^verbatim>\<open>[SEP]\<close>, at position 8, is left out. The instance counts one boundary token
  in \<^verbatim>\<open>context_length\<close> (line 105) in both orders, but lists two in
  \<^verbatim>\<open>context_token_indices\<close> when the table comes first.
\<close>

theorem table_side_separator_is_candidate:
  "get_input medal_formatter medal_context [country] = Inr medal_instance \<and>
   context_first (cfg medal_formatter) \<and>
   context_candidate_indices medal_formatter medal_instance = [1, 2, 3] \<and>
   map ((!) (in_tokens medal_instance)) [1, 2, 3] = [''how'', ''many'', ''medals''] \<and>
   get_input table_first_formatter medal_context [country] = Inr table_first_instance \<and>
   \<not> context_first (cfg table_first_formatter) \<and>
   in_tokens table_first_instance
     = [''[CLS]'', ''country'', ''text'', ''brazil'', ''[SEP]'',
        ''how'', ''many'', ''medals'', ''[SEP]''] \<and>
   context_candidate_indices table_first_formatter table_first_instance = [4, 5, 6, 7] \<and>
   in_tokens table_first_instance ! 4 = ''[SEP]'' \<and>
   in_context_length medal_instance = 4 \<and>
   length (in_context_token_indices medal_instance) = 4 \<and>
   in_context_length table_first_instance = 4 \<and>
   length (in_context_token_indices table_first_instance) = 5"
  by (simp add: table_first_get_input medal_get_input)
     (simp add: table_first_instance_def medal_instance_def context_candidate_indices_def
        table_first_formatter_def medal_formatter_def medal_config_def)

subsection \<open>Templates without a column or type marker\<close>

lemma cell_loop_no_column:
  "''column'' \<notin> set template \<Longrightarrow> sp_column_name sm = None \<Longrightarrow>
     sp_column_name (snd (cell_loop column cell_value token_offset template inp sm)) = None"
proof (induction template arbitrary: inp sm)
  case Nil
  then show ?case by simp
next
  case (Cons token rest)
  from Cons.prems have ne: "token \<noteq> ''column''" and r: "''column'' \<notin> set rest"
    by auto
  show ?case
    using ne r Cons.prems(2) Cons.IH
    by (simp add: Let_def)
qed

lemma cell_loop_no_type:
  "''type'' \<notin> set template \<Longrightarrow> sp_type sm = None \<Longrightarrow>
     sp_type (snd (cell_loop column cell_value token_offset template inp sm)) = None"
proof (induction template arbitrary: inp sm)
  case Nil
  then show ?case by simp
next
  case (Cons token rest)
  from Cons.prems have ne: "token \<noteq> ''type''" and r: "''type'' \<notin> set rest"
    by auto
  show ?case
    using ne r Cons.prems(2) Cons.IH
    by (simp add: Let_def)
qed

lemma get_cell_input_no_column:
  assumes "''column'' \<notin> set (cell_input_template c)"
  shows "sp_column_name (snd (get_cell_input c column cell_value token_offset)) = None"
proof -
  define sm0 where "sm0 =
    \<lparr>sp_first_token = (token_offset, token_offset + 1),
     sp_column_name = None, sp_value = None, sp_type = None,
     sp_other_tokens = None, sp_whole_span = None\<rparr>"
  have z: "sp_column_name sm0 = None" by (simp add: sm0_def)
  have "sp_column_name
          (snd (cell_loop column cell_value token_offset (cell_input_template c) [] sm0)) = None"
    by (rule cell_loop_no_column [OF assms z])
  then show ?thesis
    by (simp add: get_cell_input_def sm0_def case_prod_beta)
qed

lemma get_cell_input_no_type:
  assumes "''type'' \<notin> set (cell_input_template c)"
  shows "sp_type (snd (get_cell_input c column cell_value token_offset)) = None"
proof -
  define sm0 where "sm0 =
    \<lparr>sp_first_token = (token_offset, token_offset + 1),
     sp_column_name = None, sp_value = None, sp_type = None,
     sp_other_tokens = None, sp_whole_span = None\<rparr>"
  have z: "sp_type sm0 = None" by (simp add: sm0_def)
  have "sp_type
          (snd (cell_loop column cell_value token_offset (cell_input_template c) [] sm0)) = None"
    by (rule cell_loop_no_type [OF assms z])
  then show ?thesis
    by (simp add: get_cell_input_def sm0_def case_prod_beta)
qed

lemma dict_set_subset: "set (dict_set kvs k v) \<subseteq> insert (k, v) (set kvs)"
  by (induction kvs) (auto split: if_splits)

lemma dict_set_not_Nil: "dict_set kvs k v \<noteq> []"
  by (cases kvs) (auto split: if_splits)

lemma header_loop_all_spans:
  assumes "\<And>column cell_value token_offset.
             P (snd (get_cell_input (cfg f) column cell_value token_offset))"
  shows "\<forall>e\<in>set spans. P (snd e) \<Longrightarrow>
         \<forall>e\<in>set (snd (header_loop f m header row spans start)). P (snd e)"
proof (induction header arbitrary: row spans start)
  case Nil
  then show ?case by simp
next
  case (Cons column rest)
  define cell where "cell =
    get_cell_input (cfg f) column (slice_to (sample_value_tokens column) (max_cell_len (cfg f)))
      start"
  have pc: "P (snd cell)" unfolding cell_def by (rule assms)
  have "\<forall>e\<in>set (dict_set spans (col_name column) (snd cell)). P (snd e)"
  proof
    fix e assume "e \<in> set (dict_set spans (col_name column) (snd cell))"
    with dict_set_subset [of spans "col_name column" "snd cell"]
    have "e = (col_name column, snd cell) \<or> e \<in> set spans" by auto
    with pc Cons.prems show "P (snd e)" by auto
  qed
  from Cons.IH [OF this] Cons.prems show ?case
    by (simp add: Let_def cell_def)
qed

lemma header_loop_spans_not_Nil:
  "(row \<noteq> [] \<longrightarrow> spans \<noteq> []) \<Longrightarrow>
     fst (header_loop f m header row spans start) \<noteq> [] \<longrightarrow>
     snd (header_loop f m header row spans start) \<noteq> []"
proof (induction header arbitrary: row spans start)
  case Nil
  then show ?case by simp
next
  case (Cons column rest)
  define cell where "cell =
    get_cell_input (cfg f) column (slice_to (sample_value_tokens column) (max_cell_len (cfg f)))
      start"
  have "row @ fst cell @ [column_delimiter (cfg f)] \<noteq> [] \<longrightarrow>
        dict_set spans (col_name column) (snd cell) \<noteq> []"
    by (simp add: dict_set_not_Nil)
  from Cons.IH [OF this] Cons.prems show ?case
    by (simp add: Let_def cell_def)
qed

lemma get_input_spans:
  assumes "get_input f context header = Inr inst"
  shows "fst (header_loop f (MAX_BERT_INPUT_LENGTH f - int (length context) - 2 - 1) header [] []
                (if context_first (cfg f) then length context + 2 else 1)) \<noteq> []"
    and "in_column_spans inst =
           snd (header_loop f (MAX_BERT_INPUT_LENGTH f - int (length context) - 2 - 1) header [] []
                  (if context_first (cfg f) then length context + 2 else 1))"
  using assms by (auto simp: get_input_def Let_def split: if_splits)

lemma column_candidate_indices_KeyError:
  assumes "spans \<noteq> []"
    and "\<forall>e\<in>set spans. sp_column_name (snd e) = None \<or> sp_type (snd e) = None"
  shows "column_candidate_indices spans g = Inl KeyError"
proof (cases spans)
  case Nil
  with assms(1) show ?thesis by simp
next
  case (Cons e rest)
  obtain name sp where e: "e = (name, sp)" by (cases e)
  from assms(2) Cons e have "sp_column_name sp = None \<or> sp_type sp = None" by simp
  with Cons e show ?thesis by (auto split: option.splits)
qed

lemma missing_marker_spans:
  assumes "''column'' \<notin> set (cell_input_template (cfg f))
           \<or> ''type'' \<notin> set (cell_input_template (cfg f))"
    and gi: "get_input f context header = Inr inst"
  shows "in_column_spans inst \<noteq> []"
    and "column_candidate_indices (in_column_spans inst) g = Inl KeyError"
proof -
  have cellP: "sp_column_name (snd (get_cell_input (cfg f) column cell_value token_offset)) = None
             \<or> sp_type (snd (get_cell_input (cfg f) column cell_value token_offset)) = None"
    for column cell_value token_offset
  proof (cases "''column'' \<notin> set (cell_input_template (cfg f))")
    case True
    then show ?thesis by (simp add: get_cell_input_no_column)
  next
    case False
    with assms(1) have "''type'' \<notin> set (cell_input_template (cfg f))" by simp
    then show ?thesis by (simp add: get_cell_input_no_type)
  qed
  have "\<forall>e\<in>set ([] :: (string \<times> span_map) list).
          sp_column_name (snd e) = None \<or> sp_type (snd e) = None"
    by simp
  from header_loop_all_spans
         [where P = "\<lambda>sp. sp_column_name sp = None \<or> sp_type sp = None", OF cellP this]
  have all: "\<forall>e\<in>set (in_column_spans inst).
               sp_column_name (snd e) = None \<or> sp_type (snd e) = None"
    unfolding get_input_spans(2) [OF gi] .
  have "([] :: string list) \<noteq> [] \<longrightarrow> ([] :: (string \<times> span_map) list) \<noteq> []"
    by simp
  from header_loop_spans_not_Nil [OF this] get_input_spans(1) [OF gi]
  show ne: "in_column_spans inst \<noteq> []"
    unfolding get_input_spans(2) [OF gi] by simp
  from column_candidate_indices_KeyError [OF ne all]
  show "column_candidate_indices (in_column_spans inst) g = Inl KeyError" .
qed

text \<open>
  C10. When the cell template lacks the \<^verbatim>\<open>column\<close> marker or the \<^verbatim>\<open>type\<close> marker,
  \<^verbatim>\<open>create_pretraining_instance\<close> never returns an instance: whenever \<^verbatim>\<open>get_input\<close>
  returns, at least one column is included, its span map lacks \<^verbatim>\<open>column_name\<close> or
  \<^verbatim>\<open>type\<close>, and the construction of the candidate pool ends in \<^verbatim>\<open>KeyError\<close>.
\<close>

theorem missing_marker_KeyError:
  assumes "''column'' \<notin> set (cell_input_template (cfg f))
           \<or> ''type'' \<notin> set (cell_input_template (cfg f))"
  shows "(\<forall>r. create_pretraining_instance f context header g \<noteq> Inr r) \<and>
         (\<forall>inst. get_input f context header = Inr inst \<longrightarrow>
            in_column_spans inst \<noteq> [] \<and>
            column_candidate_indices (in_column_spans inst) g = Inl KeyError \<and>
            create_pretraining_instance f context header g = Inl KeyError)"
proof (intro conjI allI impI)
  fix r
  show "create_pretraining_instance f context header g \<noteq> Inr r"
  proof (cases "get_input f context header")
    case (Inl e)
    then show ?thesis by (simp add: create_pretraining_instance_def)
  next
    case (Inr inst)
    with missing_marker_spans(2) [OF assms Inr, of g] show ?thesis
      by (simp add: create_pretraining_instance_def)
  qed
next
  fix inst assume gi: "get_input f context header = Inr inst"
  show "in_column_spans inst \<noteq> []"
    by (rule missing_marker_spans(1) [OF assms gi])
  show "column_candidate_indices (in_column_spans inst) g = Inl KeyError"
    by (rule missing_marker_spans(2) [OF assms gi])
  with gi show "create_pretraining_instance f context header g = Inl KeyError"
    by (simp add: create_pretraining_instance_def)
qed

theorem missing_marker_KeyError_witness:
  "''type'' \<notin> set (cell_input_template (cfg no_type_formatter)) \<and>
   (\<exists>inst. get_input no_type_formatter medal_context [country] = Inr inst) \<and>
   create_pretraining_instance no_type_formatter medal_context [country] zero_tape
     = Inl KeyError"
proof -
  have a: "''type'' \<notin> set (cell_input_template (cfg no_type_formatter))"
    by (simp add: no_type_formatter_def medal_formatter_def medal_config_def)
  then have a': "''column'' \<notin> set (cell_input_template (cfg no_type_formatter))
           \<or> ''type'' \<notin> set (cell_input_template (cfg no_type_formatter))" ..
  have b: "\<exists>inst. get_input no_type_formatter medal_context [country] = Inr inst"
    by (simp add: get_input_def get_cell_input_def slice_to_def no_type_formatter_def
        medal_formatter_def medal_config_def country_def medal_context_def Let_def)
  then obtain inst where i: "get_input no_type_formatter medal_context [country] = Inr inst" ..
  from missing_marker_KeyError [OF a', of medal_context "[country]" zero_tape] i
  have "create_pretraining_instance no_type_formatter medal_context [country] zero_tape
          = Inl KeyError" by simp
  with a b show ?thesis by simp
qed

subsection \<open>Value spans and first tokens\<close>

lemma cell_okI:
  assumes "\<And>i. is_candidate i sp \<Longrightarrow> lo \<le> i \<and> i < hi"
    and "\<And>i. in_span i (sp_value sp) \<Longrightarrow> lo \<le> i \<and> i < hi \<and> \<not> is_candidate i sp"
    and "\<And>c d. sp_type sp = Some (c, d) \<Longrightarrow> d = c + 1"
  shows "cell_ok lo hi sp"
  unfolding cell_ok_def using assms by blast

lemma cell_ok_candidate: "cell_ok lo hi sp \<Longrightarrow> is_candidate i sp \<Longrightarrow> lo \<le> i \<and> i < hi"
  unfolding cell_ok_def by blast

lemma cell_ok_value_span:
  "cell_ok lo hi sp \<Longrightarrow> in_span i (sp_value sp) \<Longrightarrow> lo \<le> i \<and> i < hi \<and> \<not> is_candidate i sp"
  unfolding cell_ok_def by blast

lemma cell_ok_type_span: "cell_ok lo hi sp \<Longrightarrow> sp_type sp = Some (c, d) \<Longrightarrow> d = c + 1"
  unfolding cell_ok_def by blast

lemma in_span_Some: "in_span i (Some (a, b)) \<longleftrightarrow> a \<le> i \<and> i < b"
  by (simp add: in_span_def)

lemma cell_ok_column:
  assumes ok: "cell_ok lo p sm" and lo: "lo \<le> p"
  shows "cell_ok lo (p + k) (sm\<lparr>sp_column_name := Some (p, p + k)\<rparr>)"
proof (rule cell_okI)
  fix i assume "is_candidate i (sm\<lparr>sp_column_name := Some (p, p + k)\<rparr>)"
  then consider (new) "p \<le> i" "i < p + k"
    | (old) "in_span i (sp_type sm) \<or> in_others i (sp_other_tokens sm)"
    by (auto simp: is_candidate_def in_span_Some)
  then show "lo \<le> i \<and> i < p + k"
  proof cases
    case new
    with lo show ?thesis by simp
  next
    case old
    then have "is_candidate i sm" by (auto simp: is_candidate_def)
    from cell_ok_candidate [OF ok this] show ?thesis by simp
  qed
next
  fix i assume "in_span i (sp_value (sm\<lparr>sp_column_name := Some (p, p + k)\<rparr>))"
  then have "in_span i (sp_value sm)" by simp
  from cell_ok_value_span [OF ok this]
  have b: "lo \<le> i" "i < p" and n: "\<not> is_candidate i sm" by simp_all
  from n b(2) have "\<not> is_candidate i (sm\<lparr>sp_column_name := Some (p, p + k)\<rparr>)"
    by (auto simp: is_candidate_def in_span_Some)
  with b show "lo \<le> i \<and> i < p + k
               \<and> \<not> is_candidate i (sm\<lparr>sp_column_name := Some (p, p + k)\<rparr>)"
    by simp
next
  fix c d assume "sp_type (sm\<lparr>sp_column_name := Some (p, p + k)\<rparr>) = Some (c, d)"
  then have "sp_type sm = Some (c, d)" by simp
  from cell_ok_type_span [OF ok this] show "d = c + 1" .
qed

lemma cell_ok_value:
  assumes ok: "cell_ok lo p sm" and lo: "lo \<le> p"
  shows "cell_ok lo (p + k) (sm\<lparr>sp_value := Some (p, p + k)\<rparr>)"
proof (rule cell_okI)
  fix i assume "is_candidate i (sm\<lparr>sp_value := Some (p, p + k)\<rparr>)"
  then have "is_candidate i sm" by (simp add: is_candidate_def)
  from cell_ok_candidate [OF ok this] show "lo \<le> i \<and> i < p + k" by simp
next
  fix i assume "in_span i (sp_value (sm\<lparr>sp_value := Some (p, p + k)\<rparr>))"
  then have r: "p \<le> i" "i < p + k" by (simp_all add: in_span_Some)
  have "\<not> is_candidate i sm"
  proof
    assume "is_candidate i sm"
    from cell_ok_candidate [OF ok this] r(1) show False by simp
  qed
  then have "\<not> is_candidate i (sm\<lparr>sp_value := Some (p, p + k)\<rparr>)"
    by (simp add: is_candidate_def)
  with r lo show "lo \<le> i \<and> i < p + k \<and> \<not> is_candidate i (sm\<lparr>sp_value := Some (p, p + k)\<rparr>)"
    by simp
next
  fix c d assume "sp_type (sm\<lparr>sp_value := Some (p, p + k)\<rparr>) = Some (c, d)"
  then have "sp_type sm = Some (c, d)" by simp
  from cell_ok_type_span [OF ok this] show "d = c + 1" .
qed

lemma cell_ok_type:
  assumes ok: "cell_ok lo p sm" and lo: "lo \<le> p"
  shows "cell_ok lo (p + 1) (sm\<lparr>sp_type := Some (p, p + 1)\<rparr>)"
proof (rule cell_okI)
  fix i assume "is_candidate i (sm\<lparr>sp_type := Some (p, p + 1)\<rparr>)"
  then consider (new) "p \<le> i" "i < p + 1"
    | (old) "in_span i (sp_column_name sm) \<or> in_others i (sp_other_tokens sm)"
    by (auto simp: is_candidate_def in_span_Some)
  then show "lo \<le> i \<and> i < p + 1"
  proof cases
    case new
    with lo show ?thesis by simp
  next
    case old
    then have "is_candidate i sm" by (auto simp: is_candidate_def)
    from cell_ok_candidate [OF ok this] show ?thesis by simp
  qed
next
  fix i assume "in_span i (sp_value (sm\<lparr>sp_type := Some (p, p + 1)\<rparr>))"
  then have "in_span i (sp_value sm)" by simp
  from cell_ok_value_span [OF ok this]
  have b: "lo \<le> i" "i < p" and n: "\<not> is_candidate i sm" by simp_all
  from n b(2) have "\<not> is_candidate i (sm\<lparr>sp_type := Some (p, p + 1)\<rparr>)"
    by (auto simp: is_candidate_def in_span_Some)
  with b show "lo \<le> i \<and> i < p + 1 \<and> \<not> is_candidate i (sm\<lparr>sp_type := Some (p, p + 1)\<rparr>)"
    by simp
next
  fix c d assume "sp_type (sm\<lparr>sp_type := Some (p, p + 1)\<rparr>) = Some (c, d)"
  then show "d = c + 1" by auto
qed

lemma cell_ok_other:
  assumes ok: "cell_ok lo p sm" and lo: "lo \<le> p"
  shows "cell_ok lo (p + 1)
           (sm\<lparr>sp_other_tokens :=
                 Some ((case sp_other_tokens sm of None \<Rightarrow> [] | Some os \<Rightarrow> os) @ [p])\<rparr>)"
proof -
  define sm' where "sm' =
    sm\<lparr>sp_other_tokens :=
         Some ((case sp_other_tokens sm of None \<Rightarrow> [] | Some os \<Rightarrow> os) @ [p])\<rparr>"
  have c: "is_candidate i sm' \<longleftrightarrow> is_candidate i sm \<or> i = p" for i
    by (auto simp: sm'_def is_candidate_def in_others_def split: option.splits)
  have v: "sp_value sm' = sp_value sm" and t: "sp_type sm' = sp_type sm"
    by (simp_all add: sm'_def)
  have "cell_ok lo (p + 1) sm'"
  proof (rule cell_okI)
    fix i assume "is_candidate i sm'"
    with c have "is_candidate i sm \<or> i = p" by simp
    then show "lo \<le> i \<and> i < p + 1"
    proof
      assume "is_candidate i sm"
      from cell_ok_candidate [OF ok this] show ?thesis by simp
    next
      assume "i = p"
      with lo show ?thesis by simp
    qed
  next
    fix i assume "in_span i (sp_value sm')"
    with v have "in_span i (sp_value sm)" by simp
    from cell_ok_value_span [OF ok this]
    have b: "lo \<le> i" "i < p" and n: "\<not> is_candidate i sm" by simp_all
    from n b(2) c have "\<not> is_candidate i sm'" by simp
    with b show "lo \<le> i \<and> i < p + 1 \<and> \<not> is_candidate i sm'" by simp
  next
    fix c d assume "sp_type sm' = Some (c, d)"
    with t have "sp_type sm = Some (c, d)" by simp
    from cell_ok_type_span [OF ok this] show "d = c + 1" .
  qed
  then show ?thesis by (simp only: sm'_def)
qed

lemma cell_loop_ok:
  "cell_ok off (off + length inp) sm \<Longrightarrow>
     cell_ok off (off + length (fst (cell_loop column cell_value off template inp sm)))
       (snd (cell_loop column cell_value off template inp sm)) \<and>
     sp_first_token (snd (cell_loop column cell_value off template inp sm)) = sp_first_token sm"
proof (induction template arbitrary: inp sm)
  case Nil
  then show ?case by simp
next
  case (Cons token rest)
  define p where "p = length inp + off"
  have eq: "off + length (inp @ xs) = p + length xs" for xs :: "string list"
    by (simp add: p_def)
  have "off + length inp = p" by (simp add: p_def)
  with Cons.prems have ok: "cell_ok off p sm" by simp
  have lo: "off \<le> p" by (simp add: p_def)
  show ?case
  proof (cases "token = ''column''")
    case True
    have "cell_ok off (off + length (inp @ name_tokens column))
            (sm\<lparr>sp_column_name := Some (p, p + length (name_tokens column))\<rparr>)"
      unfolding eq by (rule cell_ok_column [OF ok lo])
    from Cons.IH [OF this] True show ?thesis
      unfolding p_def by (simp add: Let_def)
  next
    case nc: False
    show ?thesis
    proof (cases "token = ''value''")
      case True
      have "cell_ok off (off + length (inp @ cell_value))
              (sm\<lparr>sp_value := Some (p, p + length cell_value)\<rparr>)"
        unfolding eq by (rule cell_ok_value [OF ok lo])
      from Cons.IH [OF this] True show ?thesis
        unfolding p_def by (simp add: Let_def)
    next
      case nv: False
      show ?thesis
      proof (cases "token = ''type''")
        case True
        have l: "length [col_type column] = 1" by simp
        have "cell_ok off (off + length (inp @ [col_type column]))
                (sm\<lparr>sp_type := Some (p, p + 1)\<rparr>)"
          unfolding eq l by (rule cell_ok_type [OF ok lo])
        from Cons.IH [OF this] True show ?thesis
          unfolding p_def by (simp add: Let_def)
      next
        case nt: False
        have l: "length [token] = 1" by simp
        have "cell_ok off (off + length (inp @ [token]))
                (sm\<lparr>sp_other_tokens :=
                     Some ((case sp_other_tokens sm of None \<Rightarrow> [] | Some os \<Rightarrow> os) @ [p])\<rparr>)"
          unfolding eq l by (rule cell_ok_other [OF ok lo])
        from Cons.IH [OF this] nc nv nt show ?thesis
          unfolding p_def by (simp add: Let_def)
      qed
    qed
  qed
qed

lemma cell_ok_whole_span [simp]:
  "cell_ok lo hi (sm\<lparr>sp_whole_span := w\<rparr>) = cell_ok lo hi sm"
  by (simp add: cell_ok_def is_candidate_def)

lemma get_cell_input_ok:
  shows "cell_ok off (off + length (fst (get_cell_input c column cell_value off)))
           (snd (get_cell_input c column cell_value off))"
    and "span_lo (snd (get_cell_input c column cell_value off)) = off"
    and "span_hi (snd (get_cell_input c column cell_value off))
           = off + length (fst (get_cell_input c column cell_value off))"
proof -
  define sm0 where "sm0 =
    \<lparr>sp_first_token = (off, off + 1),
     sp_column_name = None, sp_value = None, sp_type = None,
     sp_other_tokens = None, sp_whole_span = None\<rparr>"
  define r where "r = cell_loop column cell_value off (cell_input_template c) [] sm0"
  have g: "get_cell_input c column cell_value off
             = (fst r, (snd r)\<lparr>sp_whole_span := Some (off, off + length (fst r))\<rparr>)"
    by (simp add: get_cell_input_def r_def sm0_def case_prod_beta)
  have "cell_ok off (off + length ([] :: string list)) sm0"
    by (rule cell_okI) (simp_all add: sm0_def is_candidate_def in_span_def in_others_def)
  from cell_loop_ok [OF this, of column cell_value "cell_input_template c"]
  have ok: "cell_ok off (off + length (fst r)) (snd r)"
    and ft: "sp_first_token (snd r) = sp_first_token sm0"
    by (simp_all add: r_def)
  show "cell_ok off (off + length (fst (get_cell_input c column cell_value off)))
           (snd (get_cell_input c column cell_value off))"
    using ok by (simp add: g)
  show "span_lo (snd (get_cell_input c column cell_value off)) = off"
    using ft by (simp add: g span_lo_def sm0_def)
  show "span_hi (snd (get_cell_input c column cell_value off))
           = off + length (fst (get_cell_input c column cell_value off))"
    by (simp add: g span_hi_def)
qed

lemma table_ok_Nil: "table_ok lo hi []"
  by (simp add: table_ok_def)

lemma table_ok_dict_set:
  assumes t: "table_ok lo start spans"
    and lo: "lo \<le> start"
    and sl: "span_lo sp = start" and sh: "span_hi sp = start + n"
    and ok: "cell_ok start (start + n) sp"
  shows "table_ok lo (start + n + 1) (dict_set spans k sp)"
proof -
  have old: "lo \<le> span_lo (snd e) \<and> span_hi (snd e) < start \<and>
             cell_ok (span_lo (snd e)) (span_hi (snd e)) (snd e)"
    if "e \<in> set spans" for e
    using t that unfolding table_ok_def by blast
  have pair: "snd e = snd e' \<or> span_hi (snd e) < span_lo (snd e')
              \<or> span_hi (snd e') < span_lo (snd e)"
    if "e \<in> set spans" "e' \<in> set spans" for e e'
    using t that unfolding table_ok_def by blast
  have mem: "e = (k, sp) \<or> e \<in> set spans" if "e \<in> set (dict_set spans k sp)" for e
    using that dict_set_subset [of spans k sp] by auto
  have one: "lo \<le> span_lo (snd e) \<and> span_hi (snd e) < start + n + 1 \<and>
             cell_ok (span_lo (snd e)) (span_hi (snd e)) (snd e)"
    if "e \<in> set (dict_set spans k sp)" for e
  proof -
    from mem [OF that] show ?thesis
    proof
      assume "e = (k, sp)"
      with lo sl sh ok show ?thesis by simp
    next
      assume "e \<in> set spans"
      from old [OF this] show ?thesis by simp
    qed
  qed
  have two: "snd e = snd e' \<or> span_hi (snd e) < span_lo (snd e')
              \<or> span_hi (snd e') < span_lo (snd e)"
    if e: "e \<in> set (dict_set spans k sp)" and e': "e' \<in> set (dict_set spans k sp)" for e e'
  proof -
    from mem [OF e] mem [OF e'] consider
      (both_new) "e = (k, sp)" "e' = (k, sp)"
      | (new_old) "e = (k, sp)" "e' \<in> set spans"
      | (old_new) "e \<in> set spans" "e' = (k, sp)"
      | (both_old) "e \<in> set spans" "e' \<in> set spans"
      by blast
    then show ?thesis
    proof cases
      case both_new
      then show ?thesis by simp
    next
      case new_old
      from old [OF new_old(2)] new_old(1) sl show ?thesis by simp
    next
      case old_new
      from old [OF old_new(1)] old_new(2) sl show ?thesis by simp
    next
      case both_old
      from pair [OF both_old] show ?thesis .
    qed
  qed
  from one two show ?thesis unfolding table_ok_def by blast
qed

lemma header_loop_ok:
  "table_ok lo start spans \<Longrightarrow> lo \<le> start \<Longrightarrow>
     length row \<le> length (fst (header_loop f m header row spans start)) \<and>
     table_ok lo (start + (length (fst (header_loop f m header row spans start)) - length row))
       (snd (header_loop f m header row spans start))"
proof (induction header arbitrary: row spans start)
  case Nil
  then show ?case by simp
next
  case (Cons column rest)
  define cell where "cell =
    get_cell_input (cfg f) column (slice_to (sample_value_tokens column) (max_cell_len (cfg f)))
      start"
  define n where "n = length (fst cell)"
  define row' where "row' = row @ fst cell @ [column_delimiter (cfg f)]"
  define spans' where "spans' = dict_set spans (col_name column) (snd cell)"
  define start' where "start' = start + length (fst cell @ [column_delimiter (cfg f)])"
  show ?case
  proof (cases "int (length row) + int (length (fst cell @ [column_delimiter (cfg f)])) > m")
    case True
    then have "header_loop f m (column # rest) row spans start = (row, spans)"
      by (simp add: Let_def cell_def)
    with Cons.prems show ?thesis by simp
  next
    case False
    then have h: "header_loop f m (column # rest) row spans start
                    = header_loop f m rest row' spans' start'"
      by (simp add: Let_def cell_def row'_def spans'_def start'_def)
    have st: "start' = start + n + 1" by (simp add: start'_def n_def)
    have lr: "length row' = length row + n + 1" by (simp add: row'_def n_def)
    have "table_ok lo (start + n + 1) spans'"
      unfolding spans'_def
    proof (rule table_ok_dict_set [OF Cons.prems(1) Cons.prems(2)])
      show "span_lo (snd cell) = start"
        unfolding cell_def by (rule get_cell_input_ok(2))
      show "span_hi (snd cell) = start + n"
        unfolding cell_def n_def by (rule get_cell_input_ok(3))
      show "cell_ok start (start + n) (snd cell)"
        unfolding cell_def n_def by (rule get_cell_input_ok(1))
    qed
    then have t': "table_ok lo start' spans'" by (simp add: st)
    have lo': "lo \<le> start'" using Cons.prems(2) by (simp add: st)
    note ih = Cons.IH [OF t' lo', of row']
    have a: "length row' \<le> length (fst (header_loop f m rest row' spans' start'))"
      using ih by (rule conjunct1)
    have b: "table_ok lo
                (start' + (length (fst (header_loop f m rest row' spans' start')) - length row'))
                (snd (header_loop f m rest row' spans' start'))"
      using ih by (rule conjunct2)
    from a lr have c: "length row \<le> length (fst (header_loop f m rest row' spans' start'))"
      by linarith
    from a lr st
    have "start' + (length (fst (header_loop f m rest row' spans' start')) - length row')
          = start + (length (fst (header_loop f m rest row' spans' start')) - length row)"
      by linarith
    with b have "table_ok lo
                (start + (length (fst (header_loop f m rest row' spans' start')) - length row))
                (snd (header_loop f m rest row' spans' start'))"
      by (simp only:)
    with c show ?thesis unfolding h by (rule conjI)
  qed
qed

lemma column_candidate_indices_Cons:
  assumes "column_candidate_indices ((name, sp) # rest) g = Inr (ls, g')"
  shows "\<exists>a b c d os ls' g1.
           sp_column_name sp = Some (a, b) \<and> sp_type sp = Some (c, d) \<and>
           (os = [] \<or> sp_other_tokens sp = Some os) \<and>
           column_candidate_indices rest g1 = Inr (ls', g') \<and>
           ls = ([a ..< b] @ [c ..< d] @ os) # ls'"
  using assms
  by (auto split: option.splits prod.splits sum.splits if_splits)

lemma column_candidates_sound:
  "column_candidate_indices spans g = Inr (ls, g') \<Longrightarrow>
     (\<forall>e\<in>set spans. sp_type (snd e) \<noteq> None) \<and>
     (\<forall>i\<in>set (concat ls). \<exists>e\<in>set spans. is_candidate i (snd e))"
proof (induction spans arbitrary: g ls)
  case Nil
  then show ?case by simp
next
  case (Cons e rest)
  obtain name sp where e: "e = (name, sp)" by (cases e)
  from column_candidate_indices_Cons [OF Cons.prems [unfolded e]]
  obtain a b c d os ls' g1 where
    cn: "sp_column_name sp = Some (a, b)" and ty: "sp_type sp = Some (c, d)"
    and os: "os = [] \<or> sp_other_tokens sp = Some os"
    and r: "column_candidate_indices rest g1 = Inr (ls', g')"
    and ls: "ls = ([a ..< b] @ [c ..< d] @ os) # ls'"
    by blast
  from Cons.IH [OF r]
  have ih1: "\<forall>e\<in>set rest. sp_type (snd e) \<noteq> None"
    and ih2: "\<forall>i\<in>set (concat ls'). \<exists>e\<in>set rest. is_candidate i (snd e)"
    by blast+
  have here: "is_candidate i sp" if "i \<in> set ([a ..< b] @ [c ..< d] @ os)" for i
  proof -
    from that consider "a \<le> i \<and> i < b" | "c \<le> i \<and> i < d" | "i \<in> set os" by auto
    then show ?thesis
    proof cases
      case 1
      with cn show ?thesis by (simp add: is_candidate_def in_span_def)
    next
      case 2
      with ty show ?thesis by (simp add: is_candidate_def in_span_def)
    next
      case 3
      with os have "sp_other_tokens sp = Some os" by auto
      with 3 show ?thesis by (simp add: is_candidate_def in_others_def)
    qed
  qed
  have 1: "\<forall>e\<in>set (e # rest). sp_type (snd e) \<noteq> None"
    using ih1 ty e by simp
  have 2: "\<exists>e'\<in>set (e # rest). is_candidate i (snd e')" if "i \<in> set (concat ls)" for i
  proof -
    from that ls have "i \<in> set ([a ..< b] @ [c ..< d] @ os) \<or> i \<in> set (concat ls')"
      by simp
    then show ?thesis
    proof
      assume "i \<in> set ([a ..< b] @ [c ..< d] @ os)"
      from here [OF this] e show ?thesis by simp
    next
      assume "i \<in> set (concat ls')"
      with ih2 show ?thesis by auto
    qed
  qed
  from 1 2 show ?case by blast
qed

lemma create_pretraining_instance_Inr:
  assumes "create_pretraining_instance f context header g = Inr (p, g')"
  shows "\<exists>inst ls g1 masked labels info.
           get_input f context header = Inr inst \<and>
           column_candidate_indices (in_column_spans inst) g = Inr (ls, g1) \<and>
           create_masked_lm_predictions f (in_tokens inst)
             (context_candidate_indices f inst) ls g1
             = Inr ((masked, masked_lm_positions p, labels, info), g')"
  using assms
  by (auto simp: create_pretraining_instance_def split: sum.splits prod.splits)

lemma masked_positions_subset:
  assumes "create_masked_lm_predictions f tokens context_indices column_indices g
             = Inr ((masked_tokens, positions, labels, info), g')"
  shows "set positions \<subseteq> set context_indices \<union> set (concat column_indices)"
proof -
  from create_masked_lm_predictions_Inr [OF assms] obtain n idxs mc g1 nc g2 where
    mc: "mask_columns f column_indices g = Inr (n, idxs, mc, g1)"
    and mx: "mask_context f context_indices n idxs g1 = Inr (nc, positions, g2)"
    by blast
  from mask_columns_subset [OF mc] mask_context_subset [OF mx] show ?thesis by blast
qed

lemma context_pool_bounds:
  assumes gi: "get_input f context header = Inr inst"
    and i: "i \<in> set (context_candidate_indices f inst)"
  shows "if context_first (cfg f) then i < length context + 2
         else length (fst (header_loop f (MAX_BERT_INPUT_LENGTH f - int (length context) - 2 - 1)
                             header [] [] (if context_first (cfg f) then length context + 2 else 1)))
              \<le> i"
proof -
  define row0 where "row0 =
    fst (header_loop f (MAX_BERT_INPUT_LENGTH f - int (length context) - 2 - 1) header [] []
           (if context_first (cfg f) then length context + 2 else 1))"
  define row where "row =
    (if last row0 = column_delimiter (cfg f) then butlast row0 else row0)"
  from gi have ne: "row0 \<noteq> []"
    by (auto simp: get_input_def Let_def row0_def split: if_splits)
  from gi ne have idx: "in_context_token_indices inst =
      (if context_first (cfg f) then [0 ..< 1 + length context]
       else [length row + 1 ..< length row + 1 + 1 + length context + 1])"
    unfolding get_input_def Let_def row_def row0_def
    by (auto split: if_splits)
  from ne have lr: "length row0 \<le> length row + 1"
    by (simp add: row_def)
  show ?thesis
  proof (cases "context_first (cfg f)")
    case True
    with i idx have "i \<in> set (drop 1 [0 ..< 1 + length context])"
      by (simp only: context_candidate_indices_def if_True)
    then have "i \<in> set [0 ..< 1 + length context]"
      by (rule in_set_dropD)
    then have "i < 1 + length context" by (simp only: set_upt atLeastLessThan_iff)
    then have "i < length context + 2" by linarith
    with True show ?thesis by simp
  next
    case False
    with i idx have "i \<in> set (butlast [length row + 1 ..< length row + 1 + 1 + length context + 1])"
      by (simp only: context_candidate_indices_def if_False)
    then have "i \<in> set [length row + 1 ..< length row + 1 + 1 + length context + 1]"
      by (rule in_set_butlastD)
    then have "length row + 1 \<le> i" by (simp only: set_upt atLeastLessThan_iff)
    with lr have "length row0 \<le> i" by linarith
    with False show ?thesis unfolding row0_def by simp
  qed
qed

lemma get_cell_input_first_token:
  "sp_first_token (snd (get_cell_input c column cell_value off)) = (off, off + 1)"
proof -
  define sm0 where "sm0 =
    \<lparr>sp_first_token = (off, off + 1),
     sp_column_name = None, sp_value = None, sp_type = None,
     sp_other_tokens = None, sp_whole_span = None\<rparr>"
  have "cell_ok off (off + length ([] :: string list)) sm0"
    by (rule cell_okI) (simp_all add: sm0_def is_candidate_def in_span_def in_others_def)
  from cell_loop_ok [OF this, of column cell_value "cell_input_template c"]
  have "sp_first_token (snd (cell_loop column cell_value off (cell_input_template c) [] sm0))
          = (off, off + 1)"
    by (simp add: sm0_def)
  then show ?thesis
    by (simp add: get_cell_input_def sm0_def case_prod_beta)
qed

lemma get_input_table_ok:
  assumes gi: "get_input f context header = Inr inst"
  shows "table_ok (if context_first (cfg f) then length context + 2 else 1)
           ((if context_first (cfg f) then length context + 2 else 1)
            + length (fst (header_loop f (MAX_BERT_INPUT_LENGTH f - int (length context) - 2 - 1)
                             header [] [] (if context_first (cfg f) then length context + 2 else 1))))
           (in_column_spans inst)"
    and "\<forall>e\<in>set (in_column_spans inst).
           sp_first_token (snd e) = (span_lo (snd e), span_lo (snd e) + 1)"
proof -
  define start0 where "start0 = (if context_first (cfg f) then length context + 2 else 1)"
  define m where "m = MAX_BERT_INPUT_LENGTH f - int (length context) - 2 - 1"
  have sp: "in_column_spans inst = snd (header_loop f m header [] [] start0)"
    using get_input_spans(2) [OF gi] by (simp add: start0_def m_def)
  from header_loop_ok [OF table_ok_Nil order_refl,
         where lo = start0 and row = "[]" and f = f and m = m and header = header]
  have "table_ok start0 (start0 + length (fst (header_loop f m header [] [] start0)))
          (snd (header_loop f m header [] [] start0))"
    by simp
  then show "table_ok (if context_first (cfg f) then length context + 2 else 1)
           ((if context_first (cfg f) then length context + 2 else 1)
            + length (fst (header_loop f (MAX_BERT_INPUT_LENGTH f - int (length context) - 2 - 1)
                             header [] [] (if context_first (cfg f) then length context + 2 else 1))))
           (in_column_spans inst)"
    unfolding sp start0_def m_def .
  have cellP: "sp_first_token (snd (get_cell_input (cfg f) column cell_value off))
         = (span_lo (snd (get_cell_input (cfg f) column cell_value off)),
            span_lo (snd (get_cell_input (cfg f) column cell_value off)) + 1)"
    for column cell_value off
    by (simp add: span_lo_def get_cell_input_first_token)
  have "\<forall>e\<in>set ([] :: (string \<times> span_map) list).
          sp_first_token (snd e) = (span_lo (snd e), span_lo (snd e) + 1)"
    by simp
  from header_loop_all_spans
         [where P = "\<lambda>sp. sp_first_token sp = (span_lo sp, span_lo sp + 1)", OF cellP this]
  show "\<forall>e\<in>set (in_column_spans inst).
           sp_first_token (snd e) = (span_lo (snd e), span_lo (snd e) + 1)"
    unfolding sp .
qed

lemma medal_pretraining_run:
  "create_pretraining_instance medal_formatter medal_context [country] first_half_tape
     = Inr (medal_pretraining_instance, zero_tape)"
  by (simp add: create_pretraining_instance_def medal_get_input)
     (simp add: medal_instance_def run_simps rand_next_first_half example_defs
        medal_pretraining_instance_def)

lemma medal_instance_spans: "in_column_spans medal_instance = [(''country'', country_span)]"
  by (simp add: medal_instance_def country_span_def)

text \<open>
  C3, as stated: no position of a \<^verbatim>\<open>value\<close> span or of a \<^verbatim>\<open>first_token\<close> span is masked
  unless it lies in \<^verbatim>\<open>other_tokens\<close> and the 1\% draw fired. For the first token this
  fails: with the template \<^verbatim>\<open>[column, type, value]\<close> the first token of a cell is the
  first token of the column name. In the example the draw does not fire (there is no
  \<^verbatim>\<open>other_tokens\<close> entry at all), and position 5, the \<^verbatim>\<open>first_token\<close> span of \<open>country\<close>,
  is masked.
\<close>

theorem first_token_is_masked:
  "get_input medal_formatter medal_context [country] = Inr medal_instance \<and>
   create_pretraining_instance medal_formatter medal_context [country] first_half_tape
     = Inr (medal_pretraining_instance, zero_tape) \<and>
   in_column_spans medal_instance = [(''country'', country_span)] \<and>
   sp_first_token country_span = (5, 6) \<and>
   sp_other_tokens country_span = None \<and>
   5 \<in> set (masked_lm_positions medal_pretraining_instance)"
  by (simp add: medal_get_input medal_pretraining_run medal_instance_spans)
     (simp add: country_span_def medal_pretraining_instance_def)

text \<open>
  C3, amended: for every instance that \<^verbatim>\<open>create_pretraining_instance\<close> returns, for
  every template and every random outcome, no masked position lies in the \<^verbatim>\<open>value\<close> span
  of any recorded column; and a masked position that is the \<^verbatim>\<open>first_token\<close> span of a
  column lies in that column's \<^verbatim>\<open>column_name\<close> span, its \<^verbatim>\<open>type\<close> span or its
  \<^verbatim>\<open>other_tokens\<close>, that is, it is masked as one of the column's candidates.
\<close>

theorem masking_spares_value_spans:
  assumes gi: "get_input f context header = Inr inst"
    and cp: "create_pretraining_instance f context header g = Inr (p, g')"
    and i: "i \<in> set (masked_lm_positions p)"
    and e: "(name, sp) \<in> set (in_column_spans inst)"
  shows "\<not> in_span i (sp_value sp) \<and>
         (in_span i (Some (sp_first_token sp)) \<longrightarrow>
            in_span i (sp_column_name sp) \<or> in_span i (sp_type sp)
            \<or> in_others i (sp_other_tokens sp))"
proof -
  define start0 where "start0 = (if context_first (cfg f) then length context + 2 else 1)"
  define row0 where "row0 =
    fst (header_loop f (MAX_BERT_INPUT_LENGTH f - int (length context) - 2 - 1) header [] []
           (if context_first (cfg f) then length context + 2 else 1))"
  from create_pretraining_instance_Inr [OF cp] gi obtain ls g1 masked labels info where
    cc: "column_candidate_indices (in_column_spans inst) g = Inr (ls, g1)"
    and cm: "create_masked_lm_predictions f (in_tokens inst)
               (context_candidate_indices f inst) ls g1
               = Inr ((masked, masked_lm_positions p, labels, info), g')"
    by auto
  from masked_positions_subset [OF cm] i
  have src: "i \<in> set (context_candidate_indices f inst) \<or> i \<in> set (concat ls)"
    by blast
  from column_candidates_sound [OF cc]
  have ty: "\<forall>e\<in>set (in_column_spans inst). sp_type (snd e) \<noteq> None"
    and cand: "\<forall>i\<in>set (concat ls). \<exists>e\<in>set (in_column_spans inst). is_candidate i (snd e)"
    by blast+
  have tb: "table_ok start0 (start0 + length row0) (in_column_spans inst)"
    unfolding start0_def row0_def by (rule get_input_table_ok(1) [OF gi])
  have one: "start0 \<le> span_lo (snd e') \<and> span_hi (snd e') < start0 + length row0 \<and>
             cell_ok (span_lo (snd e')) (span_hi (snd e')) (snd e')"
    if "e' \<in> set (in_column_spans inst)" for e'
    using tb that unfolding table_ok_def by blast
  have pair: "snd e1 = snd e2 \<or> span_hi (snd e1) < span_lo (snd e2)
              \<or> span_hi (snd e2) < span_lo (snd e1)"
    if "e1 \<in> set (in_column_spans inst)" "e2 \<in> set (in_column_spans inst)" for e1 e2
    using tb that unfolding table_ok_def by blast
  define s where "s = span_lo sp"
  define t where "t = span_hi sp"
  from one [OF e] have lo: "start0 \<le> s" and hi: "t < start0 + length row0"
    and ok: "cell_ok s t sp"
    by (simp_all add: s_def t_def)
  from ty e obtain c d where tsp: "sp_type sp = Some (c, d)" by force
  from cell_ok_type_span [OF ok tsp] have "d = c + 1" .
  with tsp have "is_candidate c sp" by (simp add: is_candidate_def in_span_def)
  from cell_ok_candidate [OF ok this] have st: "s < t" by simp
  have pool: "\<not> (s \<le> j \<and> j < t)" if "j \<in> set (context_candidate_indices f inst)" for j
  proof (cases "context_first (cfg f)")
    case True
    with context_pool_bounds [OF gi that] have "j < start0" by (simp add: start0_def)
    with lo show ?thesis by simp
  next
    case False
    with context_pool_bounds [OF gi that] have "length row0 \<le> j" by (simp add: row0_def)
    moreover from False hi have "t \<le> length row0" by (simp add: start0_def)
    ultimately show ?thesis by simp
  qed
  have other: "is_candidate j sp"
    if j: "s \<le> j" "j < t" and c: "j \<in> set (concat ls)" for j
  proof -
    from cand c obtain e' where e': "e' \<in> set (in_column_spans inst)"
      and ic: "is_candidate j (snd e')" by blast
    from one [OF e'] have "cell_ok (span_lo (snd e')) (span_hi (snd e')) (snd e')" by simp
    from cell_ok_candidate [OF this ic]
    have r: "span_lo (snd e') \<le> j" "j < span_hi (snd e')" by simp_all
    from pair [OF e e'] have "sp = snd e' \<or> t < span_lo (snd e') \<or> span_hi (snd e') < s"
      by (simp add: s_def t_def)
    with r j have "sp = snd e'" by linarith
    with ic show ?thesis by simp
  qed
  have mem: "is_candidate j sp" if "j \<in> set (masked_lm_positions p)" "s \<le> j" "j < t" for j
  proof -
    from masked_positions_subset [OF cm] that(1)
    have "j \<in> set (context_candidate_indices f inst) \<or> j \<in> set (concat ls)" by blast
    then show ?thesis
    proof
      assume "j \<in> set (context_candidate_indices f inst)"
      from pool [OF this] that show ?thesis by simp
    next
      assume "j \<in> set (concat ls)"
      from other [OF that(2,3) this] show ?thesis .
    qed
  qed
  have v: "\<not> in_span i (sp_value sp)"
  proof
    assume a: "in_span i (sp_value sp)"
    from cell_ok_value_span [OF ok a] have "s \<le> i" "i < t" "\<not> is_candidate i sp" by simp_all
    with mem [OF i] show False by simp
  qed
  have ft: "is_candidate i sp" if a: "in_span i (Some (sp_first_token sp))"
  proof -
    from get_input_table_ok(2) [OF gi] e have "sp_first_token sp = (s, s + 1)"
      by (force simp: s_def)
    with a have "i = s" by (simp add: in_span_def)
    with st mem [OF i] show ?thesis by simp
  qed
  from v ft show ?thesis by (simp add: is_candidate_def)
qed

theorem masking_spares_value_spans_witness:
  "get_input medal_formatter medal_context [country] = Inr medal_instance \<and>
   create_pretraining_instance medal_formatter medal_context [country] first_half_tape
     = Inr (medal_pretraining_instance, zero_tape) \<and>
   5 \<in> set (masked_lm_positions medal_pretraining_instance) \<and>
   (''country'', country_span) \<in> set (in_column_spans medal_instance) \<and>
   in_span 5 (Some (sp_first_token country_span)) \<and>
   \<not> in_span 5 (sp_value country_span) \<and>
   (in_span 5 (sp_column_name country_span) \<or> in_span 5 (sp_type country_span)
    \<or> in_others 5 (sp_other_tokens country_span))"
proof -
  have i: "5 \<in> set (masked_lm_positions medal_pretraining_instance)"
    by (simp add: medal_pretraining_instance_def)
  have e: "(''country'', country_span) \<in> set (in_column_spans medal_instance)"
    by (simp add: medal_instance_spans)
  have ft: "in_span 5 (Some (sp_first_token country_span))"
    by (simp add: in_span_def country_span_def)
  from masking_spares_value_spans [OF medal_get_input medal_pretraining_run i e] ft
  have "\<not> in_span 5 (sp_value country_span) \<and>
        (in_span 5 (sp_column_name country_span) \<or> in_span 5 (sp_type country_span)
         \<or> in_others 5 (sp_other_tokens country_span))"
    by blast
  with medal_get_input medal_pretraining_run i e ft show ?thesis by blast
qed

section \<open>Segment ids\<close>

text \<open>
  C9. Every instance that \<^verbatim>\<open>get_input\<close> returns splits into the side that starts with
  \<^verbatim>\<open>[CLS]\<close> and ends with its \<^verbatim>\<open>[SEP]\<close>, and the other side, in both orders; the segment
  ids are 0 on the first side and 1 on the other, as many as there are tokens; the
  number of zeros, which \<^verbatim>\<open>create_pretraining_instance\<close> stores as
  \<^verbatim>\<open>segment_a_length\<close>, is the length of the first side; and the sum of the segment ids is
  the number of tokens minus that count, the length of the other side.
\<close>

theorem segment_ids_invariant:
  assumes "get_input f context header = Inr inst"
  shows "\<exists>side_a side_b row.
           (if context_first (cfg f)
            then side_a = ''[CLS]'' # context @ [''[SEP]''] \<and> side_b = row @ [''[SEP]'']
            else side_a = ''[CLS]'' # row @ [''[SEP]''] \<and> side_b = context @ [''[SEP]'']) \<and>
           in_tokens inst = side_a @ side_b \<and>
           in_segment_ids inst = replicate (length side_a) 0 @ replicate (length side_b) 1 \<and>
           length (in_tokens inst) = length (in_segment_ids inst) \<and>
           set (in_segment_ids inst) \<subseteq> {0, 1} \<and>
           length (filter (\<lambda>x. x = 0) (in_segment_ids inst)) = length side_a \<and>
           sum_list (in_segment_ids inst)
             = length (in_tokens inst) - length (filter (\<lambda>x. x = 0) (in_segment_ids inst)) \<and>
           sum_list (in_segment_ids inst) = length side_b \<and>
           (\<forall>g p g'. create_pretraining_instance f context header g = Inr (p, g')
              \<longrightarrow> segment_a_length p = length side_a)"
proof -
  from get_input_shape [OF assms] obtain row where
    tok: "in_tokens inst =
             (if context_first (cfg f)
              then (''[CLS]'' # context @ [''[SEP]'']) @ (row @ [''[SEP]''])
              else (''[CLS]'' # row @ [''[SEP]'']) @ (context @ [''[SEP]'']))"
    and seg: "in_segment_ids inst =
             (if context_first (cfg f)
              then replicate (length context + 2) 0 @ replicate (length row + 1) 1
              else replicate (length row + 2) 0 @ replicate (length context + 1) 1)"
    by blast
  define side_a where "side_a =
    (if context_first (cfg f) then ''[CLS]'' # context @ [''[SEP]'']
     else ''[CLS]'' # row @ [''[SEP]''])"
  define side_b where "side_b =
    (if context_first (cfg f) then row @ [''[SEP]''] else context @ [''[SEP]''])"
  have t: "in_tokens inst = side_a @ side_b"
    using tok by (simp add: side_a_def side_b_def)
  have s: "in_segment_ids inst = replicate (length side_a) 0 @ replicate (length side_b) 1"
    using seg by (simp add: side_a_def side_b_def)
  have a: "length (filter (\<lambda>x. x = 0) (in_segment_ids inst)) = length side_a"
    by (simp add: s)
  have b: "sum_list (in_segment_ids inst) = length side_b"
    by (simp add: s sum_list_replicate)
  have c: "segment_a_length p = length side_a"
    if "create_pretraining_instance f context header g = Inr (p, g')" for g p g'
    using create_pretraining_instance_segment_a [OF that] assms a by auto
  have d: "if context_first (cfg f)
            then side_a = ''[CLS]'' # context @ [''[SEP]''] \<and> side_b = row @ [''[SEP]'']
            else side_a = ''[CLS]'' # row @ [''[SEP]''] \<and> side_b = context @ [''[SEP]'']"
    by (simp add: side_a_def side_b_def)
  have e: "set (in_segment_ids inst) \<subseteq> {0, 1}"
    by (auto simp: s)
  have l: "length (in_tokens inst) = length (in_segment_ids inst)"
    by (simp add: s t)
  have m: "sum_list (in_segment_ids inst)
             = length (in_tokens inst) - length (filter (\<lambda>x. x = 0) (in_segment_ids inst))"
    by (simp add: a b t)
  from d t s l e a m b c show ?thesis by blast
qed

theorem segment_ids_invariant_witness:
  "get_input medal_formatter medal_context [country] = Inr medal_instance \<and>
   length (in_tokens medal_instance) = length (in_segment_ids medal_instance) \<and>
   sum_list (in_segment_ids medal_instance)
     = length (in_tokens medal_instance)
       - length (filter (\<lambda>x. x = 0) (in_segment_ids medal_instance)) \<and>
   create_pretraining_instance medal_formatter medal_context [country] first_half_tape
     = Inr (medal_pretraining_instance, zero_tape) \<and>
   segment_a_length medal_pretraining_instance
     = length (filter (\<lambda>x. x = 0) (in_segment_ids medal_instance))"
proof -
  from segment_ids_invariant [OF medal_get_input] obtain side_a :: "string list" where
    a: "length (in_tokens medal_instance) = length (in_segment_ids medal_instance)"
    and b: "sum_list (in_segment_ids medal_instance)
              = length (in_tokens medal_instance)
                - length (filter (\<lambda>x. x = 0) (in_segment_ids medal_instance))"
    and c: "length (filter (\<lambda>x. x = 0) (in_segment_ids medal_instance)) = length side_a"
    and d: "\<forall>g p g'.
              create_pretraining_instance medal_formatter medal_context [country] g = Inr (p, g')
              \<longrightarrow> segment_a_length p = length side_a"
    by blast
  from d medal_pretraining_run
  have "segment_a_length medal_pretraining_instance = length side_a" by blast
  with c have "segment_a_length medal_pretraining_instance
     = length (filter (\<lambda>x. x = 0) (in_segment_ids medal_instance))" by simp
  with a b medal_get_input medal_pretraining_run show ?thesis by blast
qed

end
